theory Spec2Isabelle
  imports Complex_Main "HOL-Library.Word"
begin

section \<open>Numbers of the C code\<close>

text \<open>
  The C type \<open>float\<close> is modelled by \<open>cfloat\<close>: a real number or one of the IEEE 754
  special values (the two infinities and NaN). Arithmetic on finite values is exact: the
  rounding of binary32, overflow by magnitude and the sign of zero are not part of the
  model. The special values follow IEEE 754 as C's \<open>+ - * /\<close>, the comparison \<open><\<close>,
  \<open>fminf\<close> and \<open>fmaxf\<close> implement it; a zero divisor is taken as positive zero.
\<close>

datatype cfloat = Fin real | PInf | NInf | NaN

fun fneg :: "cfloat \<Rightarrow> cfloat" where
  "fneg (Fin x) = Fin (- x)"
| "fneg PInf = NInf"
| "fneg NInf = PInf"
| "fneg NaN = NaN"

fun fadd :: "cfloat \<Rightarrow> cfloat \<Rightarrow> cfloat" where
  "fadd NaN _ = NaN"
| "fadd _ NaN = NaN"
| "fadd PInf NInf = NaN"
| "fadd NInf PInf = NaN"
| "fadd PInf _ = PInf"
| "fadd _ PInf = PInf"
| "fadd NInf _ = NInf"
| "fadd _ NInf = NInf"
| "fadd (Fin x) (Fin y) = Fin (x + y)"

definition fsub :: "cfloat \<Rightarrow> cfloat \<Rightarrow> cfloat" where
  "fsub a b = fadd a (fneg b)"

fun fmul :: "cfloat \<Rightarrow> cfloat \<Rightarrow> cfloat" where
  "fmul NaN _ = NaN"
| "fmul _ NaN = NaN"
| "fmul (Fin x) (Fin y) = Fin (x * y)"
| "fmul (Fin x) PInf = (if x = 0 then NaN else if 0 < x then PInf else NInf)"
| "fmul (Fin x) NInf = (if x = 0 then NaN else if 0 < x then NInf else PInf)"
| "fmul PInf (Fin y) = (if y = 0 then NaN else if 0 < y then PInf else NInf)"
| "fmul NInf (Fin y) = (if y = 0 then NaN else if 0 < y then NInf else PInf)"
| "fmul PInf PInf = PInf"
| "fmul PInf NInf = NInf"
| "fmul NInf PInf = NInf"
| "fmul NInf NInf = PInf"

fun fdiv :: "cfloat \<Rightarrow> cfloat \<Rightarrow> cfloat" where
  "fdiv NaN _ = NaN"
| "fdiv _ NaN = NaN"
| "fdiv (Fin x) (Fin y) =
     (if y = 0 then (if x = 0 then NaN else if 0 < x then PInf else NInf)
      else Fin (x / y))"
| "fdiv (Fin x) PInf = Fin 0"
| "fdiv (Fin x) NInf = Fin 0"
| "fdiv PInf (Fin y) = (if 0 \<le> y then PInf else NInf)"
| "fdiv NInf (Fin y) = (if 0 \<le> y then NInf else PInf)"
| "fdiv PInf PInf = NaN"
| "fdiv PInf NInf = NaN"
| "fdiv NInf PInf = NaN"
| "fdiv NInf NInf = NaN"

text \<open>C's \<open>a < b\<close>: false as soon as one side is NaN.\<close>

fun flt :: "cfloat \<Rightarrow> cfloat \<Rightarrow> bool" where
  "flt NaN _ = False"
| "flt _ NaN = False"
| "flt (Fin x) (Fin y) = (x < y)"
| "flt (Fin x) PInf = True"
| "flt (Fin x) NInf = False"
| "flt PInf _ = False"
| "flt NInf NInf = False"
| "flt NInf _ = True"

definition fgt :: "cfloat \<Rightarrow> cfloat \<Rightarrow> bool" where
  "fgt a b = flt b a"

text \<open>C99 \<open>fminf\<close> and \<open>fmaxf\<close>: when one argument is NaN the other one is returned.\<close>

definition fminf :: "cfloat \<Rightarrow> cfloat \<Rightarrow> cfloat" where
  "fminf a b = (if a = NaN then b else if b = NaN then a else if flt b a then b else a)"

definition fmaxf :: "cfloat \<Rightarrow> cfloat \<Rightarrow> cfloat" where
  "fmaxf a b = (if a = NaN then b else if b = NaN then a else if flt a b then b else a)"

text \<open>The conversions \<open>(float) n\<close> of a \<open>size_t\<close> and of a \<open>uint64_t\<close>.\<close>

definition float_of_nat :: "nat \<Rightarrow> cfloat" where
  "float_of_nat n = Fin (real n)"

definition float_of_u64 :: "64 word \<Rightarrow> cfloat" where
  "float_of_u64 w = Fin (real (unat w))"

text \<open>The range checks used by the statements below.\<close>

fun in_range :: "real \<Rightarrow> real \<Rightarrow> cfloat \<Rightarrow> bool" where
  "in_range lo hi (Fin x) = (lo \<le> x \<and> x \<le> hi)"
| "in_range lo hi PInf = False"
| "in_range lo hi NInf = False"
| "in_range lo hi NaN = False"

text \<open>The decimal digits that \<open>%lu\<close> prints.\<close>

fun decimal :: "nat \<Rightarrow> string" where
  "decimal n =
     (if n < 10 then [char_of (48 + n)]
      else decimal (n div 10) @ [char_of (48 + n mod 10)])"

declare decimal.simps [simp del]

section \<open>The data model (ggml-opencog.h)\<close>

definition OPENCOG_MAX_ATOMS :: nat where
  "OPENCOG_MAX_ATOMS = 2048"

definition OPENCOG_MAX_ATOM_NAME :: nat where
  "OPENCOG_MAX_ATOM_NAME = 256"

datatype opencog_atom_type_t =
    OPENCOG_CONCEPT_NODE
  | OPENCOG_PREDICATE_NODE
  | OPENCOG_VARIABLE_NODE
  | OPENCOG_INHERITANCE_LINK
  | OPENCOG_EVALUATION_LINK
  | OPENCOG_IMPLICATION_LINK
  | OPENCOG_SIMILARITY_LINK
  | OPENCOG_MEMBER_LINK

record opencog_truth_value_t =
  strength :: cfloat
  confidence :: cfloat
  count :: cfloat

record opencog_attention_value_t =
  sti :: cfloat
  lti :: cfloat
  vlti :: cfloat

text \<open>
  An atom. The arrays \<open>outgoing\<close> and \<open>incoming\<close> with their counts are lists; their
  capacities and the tensor encoding (owned by the tensor library) are left out.
\<close>

record opencog_atom_t =
  atom_id :: "64 word"
  name :: string
  atom_type :: opencog_atom_type_t
  truth_value :: opencog_truth_value_t
  attention_value :: opencog_attention_value_t
  cogfluence_unit_id :: "64 word"
  outgoing :: "64 word list"
  incoming :: "64 word list"
  creation_time :: "64 word"
  last_access :: "64 word"
  is_deleted :: bool

text \<open>
  The atom space. \<open>atoms\<close> holds the slots \<open>0 ..< atom_count\<close> of the C array, so
  \<open>atom_count\<close> is \<open>length (atoms sp)\<close>; the slots past it are never read before
  they are written.
\<close>

record opencog_atomspace_t =
  atoms :: "opencog_atom_t list"
  atom_capacity :: nat
  initialized :: bool
  next_atom_id :: "64 word"
  attention_decay_rate :: cfloat
  attention_threshold :: cfloat
  importance_diffusion_rate :: cfloat
  default_strength :: cfloat
  default_confidence :: cfloat
  total_inferences :: "64 word"
  successful_inferences :: "64 word"
  reasoning_accuracy :: cfloat

section \<open>The atom table (ggml-opencog.c)\<close>

text \<open>
  Every function takes the atom space and returns it updated, next to its C result.
  The reading of the clock, \<open>time(NULL)\<close>, is the argument \<open>now\<close>: one reading for
  one call. A pointer to an atom is the index of its slot. Memory allocation succeeds.
\<close>

definition opencog_atomspace_init :: opencog_atomspace_t where
  "opencog_atomspace_init =
     \<lparr> atoms = [], atom_capacity = OPENCOG_MAX_ATOMS, initialized = True,
       next_atom_id = 1,
       attention_decay_rate = Fin 0.95, attention_threshold = Fin 0.1,
       importance_diffusion_rate = Fin 0.1,
       default_strength = Fin 0.8, default_confidence = Fin 0.9,
       total_inferences = 0, successful_inferences = 0, reasoning_accuracy = Fin 0 \<rparr>"

text \<open>The linear search of \<open>opencog_get_atom\<close>: the first live slot with the id.\<close>

fun find_atom :: "opencog_atom_t list \<Rightarrow> 64 word \<Rightarrow> nat option" where
  "find_atom [] aid = None"
| "find_atom (a # rest) aid =
     (if atom_id a = aid \<and> \<not> is_deleted a then Some 0
      else map_option Suc (find_atom rest aid))"

text \<open>A write through a pointer to the slot \<open>i\<close>.\<close>

definition upd_atom ::
  "nat \<Rightarrow> (opencog_atom_t \<Rightarrow> opencog_atom_t) \<Rightarrow> opencog_atomspace_t \<Rightarrow> opencog_atomspace_t" where
  "upd_atom i f sp = sp\<lparr>atoms := (atoms sp)[i := f (atoms sp ! i)]\<rparr>"

definition opencog_get_atom ::
  "64 word \<Rightarrow> opencog_atomspace_t \<Rightarrow> 64 word \<Rightarrow> nat option \<times> opencog_atomspace_t" where
  "opencog_get_atom now sp aid =
     (if aid = 0 then (None, sp)
      else case find_atom (atoms sp) aid of
             None \<Rightarrow> (None, sp)
           | Some i \<Rightarrow> (Some i, upd_atom i (\<lambda>a. a\<lparr>last_access := now\<rparr>) sp))"

text \<open>
  \<open>opencog_add_node\<close>. The name is a C string pointer: \<open>None\<close> is the null pointer,
  \<open>Some s\<close> a string (possibly empty). The result 0 is the failure value.
\<close>

definition opencog_add_node ::
  "64 word \<Rightarrow> opencog_atomspace_t \<Rightarrow> opencog_atom_type_t \<Rightarrow> string option
     \<Rightarrow> 64 word \<times> opencog_atomspace_t" where
  "opencog_add_node now sp ty nm =
     (case nm of
        None \<Rightarrow> (0, sp)
      | Some s \<Rightarrow>
          if atom_capacity sp \<le> length (atoms sp) then (0, sp)
          else
            let aid = next_atom_id sp;
                atom = \<lparr> atom_id = aid,
                         name = take (OPENCOG_MAX_ATOM_NAME - 1) s,
                         atom_type = ty,
                         truth_value = \<lparr> strength = default_strength sp,
                                         confidence = default_confidence sp,
                                         count = Fin 1 \<rparr>,
                         attention_value = \<lparr> sti = Fin 0, lti = Fin 0, vlti = Fin 0 \<rparr>,
                         cogfluence_unit_id = 0,
                         outgoing = [], incoming = [],
                         creation_time = now, last_access = now,
                         is_deleted = False \<rparr>
            in (aid, sp\<lparr>atoms := atoms sp @ [atom], next_atom_id := aid + 1\<rparr>))"

definition clamp01 :: "cfloat \<Rightarrow> cfloat" where
  "clamp01 x = fmaxf (Fin 0) (fminf (Fin 1) x)"

definition clamp11 :: "cfloat \<Rightarrow> cfloat" where
  "clamp11 x = fmaxf (Fin (- 1)) (fminf (Fin 1) x)"

definition opencog_set_truth_value ::
  "64 word \<Rightarrow> opencog_atomspace_t \<Rightarrow> 64 word \<Rightarrow> cfloat \<Rightarrow> cfloat \<Rightarrow> opencog_atomspace_t" where
  "opencog_set_truth_value now sp aid s c =
     (case opencog_get_atom now sp aid of
        (None, sp') \<Rightarrow> sp'
      | (Some i, sp') \<Rightarrow>
          upd_atom i (\<lambda>a. a\<lparr>truth_value :=
              \<lparr> strength = clamp01 s, confidence = clamp01 c, count = Fin 1 \<rparr>\<rparr>) sp')"

definition opencog_get_truth_value ::
  "64 word \<Rightarrow> opencog_atomspace_t \<Rightarrow> 64 word \<Rightarrow> opencog_truth_value_t \<times> opencog_atomspace_t" where
  "opencog_get_truth_value now sp aid =
     (case opencog_get_atom now sp aid of
        (None, sp') \<Rightarrow> (\<lparr> strength = Fin 0, confidence = Fin 0, count = Fin 0 \<rparr>, sp')
      | (Some i, sp') \<Rightarrow> (truth_value (atoms sp' ! i), sp'))"

text \<open>
  \<open>opencog_add_link\<close>. The first loop checks that every outgoing id resolves; the
  second appends the new id to the incoming list of every outgoing atom. The new atom's
  slot is written before the second loop, but \<open>atom_count\<close> is raised after it, so
  the searches of that loop do not see the new atom: the model appends it at the end.
\<close>

fun verify_outgoing ::
  "64 word \<Rightarrow> opencog_atomspace_t \<Rightarrow> 64 word list \<Rightarrow> bool \<times> opencog_atomspace_t" where
  "verify_outgoing now sp [] = (True, sp)"
| "verify_outgoing now sp (x # xs) =
     (case opencog_get_atom now sp x of
        (None, sp') \<Rightarrow> (False, sp')
      | (Some i, sp') \<Rightarrow> verify_outgoing now sp' xs)"

fun add_incoming ::
  "64 word \<Rightarrow> 64 word \<Rightarrow> opencog_atomspace_t \<Rightarrow> 64 word list \<Rightarrow> opencog_atomspace_t" where
  "add_incoming now aid sp [] = sp"
| "add_incoming now aid sp (x # xs) =
     (case opencog_get_atom now sp x of
        (None, sp') \<Rightarrow> add_incoming now aid sp' xs
      | (Some i, sp') \<Rightarrow>
          add_incoming now aid (upd_atom i (\<lambda>a. a\<lparr>incoming := incoming a @ [aid]\<rparr>) sp') xs)"

definition opencog_add_link ::
  "64 word \<Rightarrow> opencog_atomspace_t \<Rightarrow> opencog_atom_type_t \<Rightarrow> 64 word list
     \<Rightarrow> 64 word \<times> opencog_atomspace_t" where
  "opencog_add_link now sp ty out =
     (if out = [] \<or> atom_capacity sp \<le> length (atoms sp) then (0, sp)
      else case verify_outgoing now sp out of
             (False, sp1) \<Rightarrow> (0, sp1)
           | (True, sp1) \<Rightarrow>
               let aid = next_atom_id sp1;
                   sp2 = sp1\<lparr>next_atom_id := aid + 1\<rparr>;
                   atom = \<lparr> atom_id = aid,
                            name = ''Link_'' @ decimal (unat aid),
                            atom_type = ty,
                            truth_value = \<lparr> strength = default_strength sp2,
                                            confidence = default_confidence sp2,
                                            count = Fin 1 \<rparr>,
                            attention_value = \<lparr> sti = Fin 0, lti = Fin 0, vlti = Fin 0 \<rparr>,
                            cogfluence_unit_id = 0,
                            outgoing = out, incoming = [],
                            creation_time = now, last_access = now,
                            is_deleted = False \<rparr>;
                   sp3 = add_incoming now aid sp2 out
               in (aid, sp3\<lparr>atoms := atoms sp3 @ [atom]\<rparr>))"

section \<open>Truth values (PLN)\<close>

definition opencog_pln_and ::
  "opencog_truth_value_t \<Rightarrow> opencog_truth_value_t \<Rightarrow> opencog_truth_value_t" where
  "opencog_pln_and tv1 tv2 =
     \<lparr> strength = fminf (strength tv1) (strength tv2),
       confidence = fdiv (fmul (confidence tv1) (confidence tv2))
                      (fsub (fadd (confidence tv1) (confidence tv2))
                            (fmul (confidence tv1) (confidence tv2))),
       count = fminf (count tv1) (count tv2) \<rparr>"

definition opencog_pln_or ::
  "opencog_truth_value_t \<Rightarrow> opencog_truth_value_t \<Rightarrow> opencog_truth_value_t" where
  "opencog_pln_or tv1 tv2 =
     \<lparr> strength = fmaxf (strength tv1) (strength tv2),
       confidence = fdiv (fmul (confidence tv1) (confidence tv2))
                      (fsub (fadd (confidence tv1) (confidence tv2))
                            (fmul (confidence tv1) (confidence tv2))),
       count = fmaxf (count tv1) (count tv2) \<rparr>"

definition opencog_pln_not :: "opencog_truth_value_t \<Rightarrow> opencog_truth_value_t" where
  "opencog_pln_not tv =
     \<lparr> strength = fsub (Fin 1) (strength tv),
       confidence = confidence tv,
       count = count tv \<rparr>"

section \<open>Attention values (ECAN)\<close>

definition opencog_set_attention_value ::
  "64 word \<Rightarrow> opencog_atomspace_t \<Rightarrow> 64 word \<Rightarrow> cfloat \<Rightarrow> cfloat \<Rightarrow> cfloat
     \<Rightarrow> opencog_atomspace_t" where
  "opencog_set_attention_value now sp aid s l v =
     (case opencog_get_atom now sp aid of
        (None, sp') \<Rightarrow> sp'
      | (Some i, sp') \<Rightarrow>
          upd_atom i (\<lambda>a. a\<lparr>attention_value :=
              \<lparr> sti = clamp11 s, lti = clamp01 l, vlti = clamp01 v \<rparr>\<rparr>) sp')"

definition opencog_get_attention_value ::
  "64 word \<Rightarrow> opencog_atomspace_t \<Rightarrow> 64 word
     \<Rightarrow> opencog_attention_value_t \<times> opencog_atomspace_t" where
  "opencog_get_attention_value now sp aid =
     (case opencog_get_atom now sp aid of
        (None, sp') \<Rightarrow> (\<lparr> sti = Fin 0, lti = Fin 0, vlti = Fin 0 \<rparr>, sp')
      | (Some i, sp') \<Rightarrow> (attention_value (atoms sp' ! i), sp'))"

text \<open>The body of the loop of \<open>opencog_update_attention_values\<close>, for one slot.\<close>

definition decay_atom :: "cfloat \<Rightarrow> cfloat \<Rightarrow> opencog_atom_t \<Rightarrow> opencog_atom_t" where
  "decay_atom rate threshold a =
     (if is_deleted a then a
      else
        let sti1 = fmul (sti (attention_value a)) rate;
            lti1 = fmul (lti (attention_value a)) rate;
            transfer = fmul sti1 (Fin 0.1);
            lti2 = (if fgt sti1 threshold then fadd lti1 transfer else lti1);
            sti2 = (if fgt sti1 threshold then fsub sti1 transfer else sti1)
        in a\<lparr>attention_value :=
               \<lparr> sti = clamp11 sti2, lti = clamp01 lti2,
                 vlti = clamp01 (vlti (attention_value a)) \<rparr>\<rparr>)"

definition opencog_update_attention_values :: "opencog_atomspace_t \<Rightarrow> opencog_atomspace_t" where
  "opencog_update_attention_values sp =
     sp\<lparr>atoms := map (decay_atom (attention_decay_rate sp) (attention_threshold sp)) (atoms sp)\<rparr>"

text \<open>
  One loop of \<open>opencog_spread_attention\<close> over a list of target ids. The loops write
  only \<open>sti\<close> and \<open>last_access\<close>, so the source's id lists, which the C code reads
  again at each turn, are the ones read before the loop.
\<close>

fun spread_to ::
  "64 word \<Rightarrow> cfloat \<Rightarrow> opencog_atomspace_t \<Rightarrow> 64 word list \<Rightarrow> opencog_atomspace_t" where
  "spread_to now amt sp [] = sp"
| "spread_to now amt sp (x # xs) =
     (case opencog_get_atom now sp x of
        (None, sp') \<Rightarrow> spread_to now amt sp' xs
      | (Some j, sp') \<Rightarrow>
          spread_to now amt
            (upd_atom j (\<lambda>a. a\<lparr>attention_value := (attention_value a)
                 \<lparr>sti := clamp11 (fadd (sti (attention_value a)) amt)\<rparr>\<rparr>) sp') xs)"

definition opencog_spread_attention ::
  "64 word \<Rightarrow> opencog_atomspace_t \<Rightarrow> 64 word \<Rightarrow> cfloat \<Rightarrow> opencog_atomspace_t" where
  "opencog_spread_attention now sp source_atom_id amount =
     (case opencog_get_atom now sp source_atom_id of
        (None, sp') \<Rightarrow> sp'
      | (Some i, sp0) \<Rightarrow>
          let out = outgoing (atoms sp0 ! i);
              sp1 = (if out \<noteq> []
                     then spread_to now (fdiv amount (float_of_nat (length out))) sp0 out
                     else sp0);
              inc = incoming (atoms sp1 ! i)
          in if inc \<noteq> []
             then spread_to now (fdiv amount (float_of_nat (length inc))) sp1 inc
             else sp1)"

section \<open>Inference\<close>

text \<open>The scan of \<open>opencog_infer_inheritance\<close> for the two premise links; a later match
  overwrites an earlier one.\<close>

definition scan_step ::
  "64 word \<Rightarrow> 64 word \<Rightarrow> 64 word \<Rightarrow> 64 word \<times> 64 word \<Rightarrow> opencog_atom_t
     \<Rightarrow> 64 word \<times> 64 word" where
  "scan_step a b c acc atom =
     (if is_deleted atom \<or> atom_type atom \<noteq> OPENCOG_INHERITANCE_LINK then acc
      else if 2 \<le> length (outgoing atom) then
        (if outgoing atom ! 0 = a \<and> outgoing atom ! 1 = b then atom_id atom else fst acc,
         if outgoing atom ! 0 = b \<and> outgoing atom ! 1 = c then atom_id atom else snd acc)
      else acc)"

definition opencog_infer_inheritance ::
  "64 word \<Rightarrow> opencog_atomspace_t \<Rightarrow> 64 word \<Rightarrow> 64 word \<Rightarrow> 64 word
     \<Rightarrow> bool \<times> opencog_atomspace_t" where
  "opencog_infer_inheritance now sp concept_a concept_b concept_c =
     (let (ab_link, bc_link) = foldl (scan_step concept_a concept_b concept_c) (0, 0) (atoms sp)
      in if ab_link = 0 \<or> bc_link = 0 then (False, sp)
         else
           let (tv_ab, sp1) = opencog_get_truth_value now sp ab_link;
               (tv_bc, sp2) = opencog_get_truth_value now sp1 bc_link;
               s = fmul (strength tv_ab) (strength tv_bc);
               cf = fdiv (fmul (confidence tv_ab) (confidence tv_bc))
                      (fsub (fadd (confidence tv_ab) (confidence tv_bc))
                            (fmul (confidence tv_ab) (confidence tv_bc)));
               (ac_link, sp3) = opencog_add_link now sp2 OPENCOG_INHERITANCE_LINK
                                  [concept_a, concept_c]
           in if ac_link \<noteq> 0 then
                let sp4 = opencog_set_truth_value now sp3 ac_link s cf;
                    sp5 = sp4\<lparr>total_inferences := total_inferences sp4 + 1,
                              successful_inferences := successful_inferences sp4 + 1\<rparr>
                in (True, sp5\<lparr>reasoning_accuracy :=
                       fdiv (float_of_u64 (successful_inferences sp5))
                            (float_of_u64 (total_inferences sp5))\<rparr>)
              else (False, sp3\<lparr>total_inferences := total_inferences sp3 + 1\<rparr>))"

text \<open>The three sums of \<open>opencog_infer_similarity\<close>: common, total for a, total for b.\<close>

definition sim_step ::
  "64 word \<Rightarrow> 64 word \<Rightarrow> cfloat \<times> cfloat \<times> cfloat \<Rightarrow> opencog_atom_t
     \<Rightarrow> cfloat \<times> cfloat \<times> cfloat" where
  "sim_step a b acc atom =
     (if is_deleted atom \<or> atom_type atom \<noteq> OPENCOG_INHERITANCE_LINK then acc
      else if 2 \<le> length (outgoing atom) then
        (let a_related = (outgoing atom ! 0 = a \<or> outgoing atom ! 1 = a);
             b_related = (outgoing atom ! 0 = b \<or> outgoing atom ! 1 = b);
             s = strength (truth_value atom)
         in (if a_related \<and> b_related then fadd (fst acc) s else fst acc,
             if a_related then fadd (fst (snd acc)) s else fst (snd acc),
             if b_related then fadd (snd (snd acc)) s else snd (snd acc)))
      else acc)"

definition opencog_infer_similarity ::
  "64 word \<Rightarrow> opencog_atomspace_t \<Rightarrow> 64 word \<Rightarrow> 64 word \<Rightarrow> bool \<times> opencog_atomspace_t" where
  "opencog_infer_similarity now sp concept_a concept_b =
     (let (common, total_a, total_b) =
            foldl (sim_step concept_a concept_b) (Fin 0, Fin 0, Fin 0) (atoms sp);
          denom = fsub (fadd total_a total_b) common;
          similarity = (if fgt denom (Fin 0) then fdiv common denom else Fin 0)
      in if fgt similarity (Fin 0.1) then
           (let (sim_link, sp1) = opencog_add_link now sp OPENCOG_SIMILARITY_LINK
                                    [concept_a, concept_b]
            in if sim_link \<noteq> 0 then
                 let cf = fminf (Fin 0.9) (fdiv common (Fin 10));
                     sp2 = opencog_set_truth_value now sp1 sim_link similarity cf;
                     sp3 = sp2\<lparr>total_inferences := total_inferences sp2 + 1,
                               successful_inferences := successful_inferences sp2 + 1\<rparr>
                 in (True, sp3\<lparr>reasoning_accuracy :=
                        fdiv (float_of_u64 (successful_inferences sp3))
                             (float_of_u64 (total_inferences sp3))\<rparr>)
               else (False, sp1\<lparr>total_inferences := total_inferences sp1 + 1\<rparr>))
         else (False, sp\<lparr>total_inferences := total_inferences sp + 1\<rparr>))"

section \<open>Queries\<close>

text \<open>
  The queries by id. A query returns its ids as a list; the null result of the C code,
  with a count of 0, is the empty list.
\<close>

definition opencog_query_incoming ::
  "64 word \<Rightarrow> opencog_atomspace_t \<Rightarrow> 64 word \<Rightarrow> 64 word list \<times> opencog_atomspace_t" where
  "opencog_query_incoming now sp aid =
     (case opencog_get_atom now sp aid of
        (None, sp') \<Rightarrow> ([], sp')
      | (Some i, sp') \<Rightarrow> (incoming (atoms sp' ! i), sp'))"

definition opencog_query_outgoing ::
  "64 word \<Rightarrow> opencog_atomspace_t \<Rightarrow> 64 word \<Rightarrow> 64 word list \<times> opencog_atomspace_t" where
  "opencog_query_outgoing now sp aid =
     (case opencog_get_atom now sp aid of
        (None, sp') \<Rightarrow> ([], sp')
      | (Some i, sp') \<Rightarrow> (outgoing (atoms sp' ! i), sp'))"

section \<open>Atoms made from knowledge units\<close>

text \<open>The fields of a Cogfluence knowledge unit that \<open>opencog_from_cogfluence_unit\<close> reads.\<close>

datatype cogfluence_unit_type_t =
    COGFLUENCE_CONCEPT
  | COGFLUENCE_RELATION
  | COGFLUENCE_WORKFLOW
  | COGFLUENCE_RULE
  | COGFLUENCE_PATTERN

record cogfluence_knowledge_unit_t =
  unit_name :: string
  unit_type :: cogfluence_unit_type_t
  unit_atomspace_id :: "64 word"
  unit_truth_value :: cfloat
  unit_confidence :: cfloat
  unit_activation_level :: cfloat
  unit_attention_value :: cfloat

fun unit_atom_type :: "cogfluence_unit_type_t \<Rightarrow> opencog_atom_type_t" where
  "unit_atom_type COGFLUENCE_CONCEPT = OPENCOG_CONCEPT_NODE"
| "unit_atom_type COGFLUENCE_RELATION = OPENCOG_INHERITANCE_LINK"
| "unit_atom_type COGFLUENCE_RULE = OPENCOG_IMPLICATION_LINK"
| "unit_atom_type _ = OPENCOG_CONCEPT_NODE"

definition opencog_from_cogfluence_unit ::
  "64 word \<Rightarrow> opencog_atomspace_t \<Rightarrow> cogfluence_knowledge_unit_t
     \<Rightarrow> 64 word \<times> opencog_atomspace_t" where
  "opencog_from_cogfluence_unit now sp u =
     (case opencog_add_node now sp (unit_atom_type (unit_type u)) (Some (unit_name u)) of
        (aid, sp1) \<Rightarrow>
          if aid \<noteq> 0 then
            (case opencog_get_atom now sp1 aid of
               (None, sp2) \<Rightarrow> (aid, sp2)
             | (Some i, sp2) \<Rightarrow>
                 (aid, upd_atom i (\<lambda>a. a\<lparr>
                    truth_value := (truth_value a)\<lparr>strength := unit_truth_value u,
                                                    confidence := unit_confidence u\<rparr>,
                    attention_value := (attention_value a)\<lparr>sti := unit_attention_value u,
                                                            lti := unit_activation_level u\<rparr>,
                    cogfluence_unit_id := unit_atomspace_id u\<rparr>) sp2))
          else (aid, sp1))"

section \<open>Sequences of calls\<close>

text \<open>
  The calls a client can make on an atom space, each with the clock reading of the call.
  \<open>Get_atom\<close> stands for every function whose only effect on the atom space is that of
  \<open>opencog_get_atom\<close> (the getters, the queries by id, printing). The source has no
  function that sets \<open>is_deleted\<close>: \<open>opencog_delete_atom\<close> is declared only.
\<close>

datatype opencog_call =
    Add_node opencog_atom_type_t "string option"
  | Add_link opencog_atom_type_t "64 word list"
  | Get_atom "64 word"
  | Set_truth_value "64 word" cfloat cfloat
  | Set_attention_value "64 word" cfloat cfloat cfloat
  | Update_attention_values
  | Spread_attention "64 word" cfloat
  | From_cogfluence_unit cogfluence_knowledge_unit_t
  | Infer_inheritance "64 word" "64 word" "64 word"
  | Infer_similarity "64 word" "64 word"

fun call :: "64 word \<Rightarrow> opencog_call \<Rightarrow> opencog_atomspace_t \<Rightarrow> opencog_atomspace_t" where
  "call now (Add_node ty nm) sp = snd (opencog_add_node now sp ty nm)"
| "call now (Add_link ty out) sp = snd (opencog_add_link now sp ty out)"
| "call now (Get_atom aid) sp = snd (opencog_get_atom now sp aid)"
| "call now (Set_truth_value aid s c) sp = opencog_set_truth_value now sp aid s c"
| "call now (Set_attention_value aid s l v) sp = opencog_set_attention_value now sp aid s l v"
| "call now Update_attention_values sp = opencog_update_attention_values sp"
| "call now (Spread_attention aid amount) sp = opencog_spread_attention now sp aid amount"
| "call now (From_cogfluence_unit u) sp = snd (opencog_from_cogfluence_unit now sp u)"
| "call now (Infer_inheritance a b c) sp = snd (opencog_infer_inheritance now sp a b c)"
| "call now (Infer_similarity a b) sp = snd (opencog_infer_similarity now sp a b)"

fun run :: "(64 word \<times> opencog_call) list \<Rightarrow> opencog_atomspace_t \<Rightarrow> opencog_atomspace_t" where
  "run [] sp = sp"
| "run ((now, c) # cs) sp = run cs (call now c sp)"

text \<open>
  What every atom space built by such calls satisfies: the slot \<open>i\<close> holds the id
  \<open>i + 1\<close>, the next id follows the last slot, no atom is deleted, and every outgoing id
  names a slot.
\<close>

definition wf_atom :: "nat \<Rightarrow> nat \<Rightarrow> opencog_atom_t \<Rightarrow> bool" where
  "wf_atom n i a =
     (unat (atom_id a) = i + 1 \<and> \<not> is_deleted a
      \<and> list_all (\<lambda>x. 0 < unat x \<and> unat x \<le> n) (outgoing a))"

definition wf_atomspace :: "opencog_atomspace_t \<Rightarrow> bool" where
  "wf_atomspace sp =
     (atom_capacity sp = OPENCOG_MAX_ATOMS
      \<and> length (atoms sp) \<le> OPENCOG_MAX_ATOMS
      \<and> unat (next_atom_id sp) = length (atoms sp) + 1
      \<and> list_all (\<lambda>i. wf_atom (length (atoms sp)) i (atoms sp ! i)) [0 ..< length (atoms sp)])"

text \<open>The part of an atom that the links of the graph are made of.\<close>

definition links ::
  "opencog_atom_t \<Rightarrow> 64 word \<times> bool \<times> opencog_atom_type_t \<times> 64 word list \<times> 64 word list" where
  "links a = (atom_id a, is_deleted a, atom_type a, outgoing a, incoming a)"

text \<open>A change that leaves the graph, the capacity and the next id as they were.\<close>

definition quiet :: "opencog_atomspace_t \<Rightarrow> opencog_atomspace_t \<Rightarrow> bool" where
  "quiet sp sp' =
     (atom_capacity sp' = atom_capacity sp \<and> next_atom_id sp' = next_atom_id sp
      \<and> map links (atoms sp') = map links (atoms sp))"

text \<open>A change that keeps every slot's id, liveness and outgoing list, and only adds to
  the incoming lists.\<close>

definition grows :: "opencog_atomspace_t \<Rightarrow> opencog_atomspace_t \<Rightarrow> bool" where
  "grows sp sp' =
     (length (atoms sp) \<le> length (atoms sp')
      \<and> list_all (\<lambda>i. atom_id (atoms sp' ! i) = atom_id (atoms sp ! i)
                     \<and> is_deleted (atoms sp' ! i) = is_deleted (atoms sp ! i)
                     \<and> outgoing (atoms sp' ! i) = outgoing (atoms sp ! i)
                     \<and> set (incoming (atoms sp ! i)) \<subseteq> set (incoming (atoms sp' ! i)))
          [0 ..< length (atoms sp)])"




section \<open>Example atom spaces\<close>

definition three_nodes :: "(64 word \<times> opencog_call) list" where
  "three_nodes =
     [(1, Add_node OPENCOG_CONCEPT_NODE (Some ''A'')),
      (2, Add_node OPENCOG_CONCEPT_NODE (Some ''B'')),
      (3, Add_node OPENCOG_CONCEPT_NODE (Some ''C''))]"

text \<open>Three nodes and the inheritance link from 1 to 2; no link from 2 to 3.\<close>

definition one_premise :: opencog_atomspace_t where
  "one_premise =
     run (three_nodes @ [(4, Add_link OPENCOG_INHERITANCE_LINK [1, 2])]) opencog_atomspace_init"

text \<open>A truth value in range whose confidence is 0.\<close>

definition tv_no_confidence :: opencog_truth_value_t where
  "tv_no_confidence = \<lparr> strength = Fin 0.5, confidence = Fin 0, count = Fin 1 \<rparr>"

text \<open>One node with \<open>sti = 0.5\<close> and \<open>lti = 0.5\<close>.\<close>

definition decay_example :: opencog_atomspace_t where
  "decay_example =
     run [(1, Add_node OPENCOG_CONCEPT_NODE (Some ''A'')),
          (2, Set_attention_value 1 (Fin 0.5) (Fin 0.5) (Fin 0))] opencog_atomspace_init"

text \<open>Three nodes, the link 4 from 1 to 2, and the link 5 whose first member is the link 4.\<close>

definition spread_example :: opencog_atomspace_t where
  "spread_example =
     run (three_nodes @ [(4, Add_link OPENCOG_INHERITANCE_LINK [1, 2]),
                         (5, Add_link OPENCOG_EVALUATION_LINK [4, 3])]) opencog_atomspace_init"



text \<open>Calls made after a link has been created.\<close>

definition later_calls :: "(64 word \<times> opencog_call) list" where
  "later_calls =
     [(5, Add_node OPENCOG_PREDICATE_NODE (Some ''P'')),
      (6, Add_link OPENCOG_EVALUATION_LINK [5, 1]),
      (7, Spread_attention 1 (Fin 0.4)),
      (8, Update_attention_values)]"

section \<open>Lookup\<close>

lemmas atomspace_eval =
  opencog_add_node_def opencog_add_link_def opencog_get_atom_def upd_atom_def
  opencog_atomspace_init_def OPENCOG_MAX_ATOMS_def OPENCOG_MAX_ATOM_NAME_def Let_def
  opencog_set_truth_value_def opencog_get_truth_value_def
  opencog_set_attention_value_def opencog_get_attention_value_def
  opencog_infer_inheritance_def scan_step_def
  opencog_update_attention_values_def decay_atom_def opencog_spread_attention_def
  opencog_query_incoming_def opencog_query_outgoing_def
  clamp01_def clamp11_def fminf_def fmaxf_def fsub_def fgt_def float_of_u64_def float_of_nat_def

lemma find_atom_Some:
  "find_atom xs aid = Some i \<Longrightarrow>
     i < length xs \<and> atom_id (xs ! i) = aid \<and> \<not> is_deleted (xs ! i)"
proof (induction xs arbitrary: i)
  case Nil
  then show ?case by simp
next
  case (Cons a xs)
  then show ?case by (auto split: if_splits)
qed

lemma find_atom_cong:
  "map atom_id xs = map atom_id ys \<Longrightarrow> map is_deleted xs = map is_deleted ys
     \<Longrightarrow> find_atom xs aid = find_atom ys aid"
proof (induction xs arbitrary: ys)
  case Nil
  then show ?case by simp
next
  case (Cons a xs)
  then obtain b ys' where "ys = b # ys'" by (cases ys) auto
  with Cons show ?case by auto
qed

lemma map_upd_same: "(map g xs)[i := g (xs ! i)] = map g xs"
  by (cases "i < length xs") (simp_all add: list_update_same_conv list_update_beyond)

lemma get_atom_NoneD:
  assumes "opencog_get_atom now sp aid = (None, sp')"
  shows "sp' = sp \<and> (aid = 0 \<or> find_atom (atoms sp) aid = None)"
  using assms
  by (cases "find_atom (atoms sp) aid") (simp_all add: opencog_get_atom_def split: if_splits)

lemma get_atom_SomeD:
  assumes "opencog_get_atom now sp aid = (Some i, sp')"
  shows "i < length (atoms sp) \<and> atom_id (atoms sp ! i) = aid \<and> \<not> is_deleted (atoms sp ! i)
       \<and> aid \<noteq> 0 \<and> find_atom (atoms sp) aid = Some i
       \<and> sp' = upd_atom i (\<lambda>a. a\<lparr>last_access := now\<rparr>) sp"
proof -
  from assms have nz: "aid \<noteq> 0" by (auto simp: opencog_get_atom_def split: if_splits)
  with assms have f: "find_atom (atoms sp) aid = Some i"
    by (cases "find_atom (atoms sp) aid") (simp_all add: opencog_get_atom_def)
  with nz assms have "sp' = upd_atom i (\<lambda>a. a\<lparr>last_access := now\<rparr>) sp"
    by (simp add: opencog_get_atom_def)
  with nz f find_atom_Some[OF f] show ?thesis by simp
qed

section \<open>Creating links: an id that does not resolve\<close>












section \<open>Creating nodes\<close>



section \<open>Setting a truth value\<close>

text \<open>
  C9. When the id resolves to a live atom, \<open>opencog_set_truth_value\<close> stores the clamped
  strength and confidence and sets the count to 1, whatever it was: this is the truth
  value that \<open>opencog_get_truth_value\<close> reads back.
\<close>

theorem set_truth_value_resets_count:
  assumes "fst (opencog_get_atom now sp aid) = Some i"
  shows "fst (opencog_get_truth_value now' (opencog_set_truth_value now sp aid s c) aid)
           = \<lparr> strength = fmaxf (Fin 0) (fminf (Fin 1) s),
               confidence = fmaxf (Fin 0) (fminf (Fin 1) c),
               count = Fin 1 \<rparr>"
proof -
  obtain sp1 where g: "opencog_get_atom now sp aid = (Some i, sp1)"
    using assms by (cases "opencog_get_atom now sp aid") simp
  from get_atom_SomeD[OF g] have nz: "aid \<noteq> 0" and f: "find_atom (atoms sp) aid = Some i"
    and i: "i < length (atoms sp)" by simp_all
  let ?sp' = "opencog_set_truth_value now sp aid s c"
  have "map atom_id (atoms ?sp') = map atom_id (atoms sp)"
       "map is_deleted (atoms ?sp') = map is_deleted (atoms sp)"
    using f nz i
    by (simp_all add: opencog_set_truth_value_def opencog_get_atom_def upd_atom_def
          map_update map_upd_same)
  then have "find_atom (atoms ?sp') aid = find_atom (atoms sp) aid"
    by (rule find_atom_cong)
  moreover have "truth_value (atoms ?sp' ! i)
                   = \<lparr> strength = clamp01 s, confidence = clamp01 c, count = Fin 1 \<rparr>"
    using f nz i by (simp add: opencog_set_truth_value_def opencog_get_atom_def upd_atom_def)
  moreover have "length (atoms ?sp') = length (atoms sp)"
    using f nz i by (simp add: opencog_set_truth_value_def opencog_get_atom_def upd_atom_def)
  ultimately show ?thesis
    using nz i f
    by (simp add: opencog_get_truth_value_def opencog_get_atom_def upd_atom_def clamp01_def)
qed

theorem set_truth_value_resets_count_witness:
  "fst (opencog_get_atom 9 one_premise 4) = Some 3
   \<and> count (truth_value (atoms (opencog_set_truth_value 8 one_premise 4 (Fin 0.9) (Fin 0.8)) ! 3))
       = Fin 1
   \<and> fst (opencog_get_truth_value 10
             (opencog_set_truth_value 9 (opencog_set_truth_value 8 one_premise 4 (Fin 0.9) (Fin 0.8))
                4 (Fin 1.5) (Fin (- 0.2))) 4)
       = \<lparr> strength = Fin 1, confidence = Fin 0, count = Fin 1 \<rparr>"
proof -
  have h: "fst (opencog_get_atom 9 (opencog_set_truth_value 8 one_premise 4 (Fin 0.9) (Fin 0.8)) 4)
             = Some 3"
    by (simp add: one_premise_def three_nodes_def atomspace_eval)
  show ?thesis
    using set_truth_value_resets_count [OF h, of 10 "Fin 1.5" "Fin (- 0.2)"]
    by (simp add: one_premise_def three_nodes_def atomspace_eval)
qed

section \<open>Truth value combinators\<close>

text \<open>Away from the case where both confidences are 0, the confidence formula of
  \<open>opencog_pln_and\<close> and \<open>opencog_pln_or\<close> stays in the unit interval.\<close>

lemma confidence_formula_in_range:
  assumes "0 \<le> c1" "c1 \<le> 1" "0 \<le> c2" "c2 \<le> 1" "c1 \<noteq> 0 \<or> c2 \<noteq> 0"
  shows "in_range 0 1 (fdiv (fmul (Fin c1) (Fin c2))
                         (fsub (fadd (Fin c1) (Fin c2)) (fmul (Fin c1) (Fin c2))))"
proof -
  have p: "c1 * c2 \<le> c1" "c1 * c2 \<le> c2" "0 \<le> c1 * c2"
    using assms by (simp_all add: mult_left_le mult_left_le_one_le)
  have d: "0 < c1 + c2 - c1 * c2"
  proof (cases "c1 = 0")
    case True
    with assms show ?thesis by auto
  next
    case False
    with assms p show ?thesis by (smt (verit))
  qed
  have "c1 * c2 \<le> c1 + c2 - c1 * c2" using p assms by linarith
  with d p show ?thesis by (simp add: fsub_def)
qed

lemma pln_not_in_range:
  "in_range 0 1 (strength tv) \<Longrightarrow> in_range 0 1 (strength (opencog_pln_not tv))"
  by (cases "strength tv") (simp_all add: opencog_pln_not_def fsub_def)

text \<open>
  C5. The combinators do not clamp, and the confidence formula divides by
  \<open>c1 + c2 - c1 * c2\<close> without a guard. For two truth values in range whose confidences
  are both 0 the quotient is 0 / 0: the confidence of \<open>opencog_pln_and\<close> and of
  \<open>opencog_pln_or\<close> is NaN, which is not in the unit interval.
\<close>

theorem pln_and_zero_confidence:
  "in_range 0 1 (strength tv_no_confidence) \<and> in_range 0 1 (confidence tv_no_confidence)
   \<and> confidence (opencog_pln_and tv_no_confidence tv_no_confidence) = NaN
   \<and> confidence (opencog_pln_or tv_no_confidence tv_no_confidence) = NaN
   \<and> \<not> in_range 0 1 (confidence (opencog_pln_and tv_no_confidence tv_no_confidence))"
  by (simp add: tv_no_confidence_def opencog_pln_and_def opencog_pln_or_def fsub_def)

section \<open>Attention decay\<close>

text \<open>
  C7. One call of \<open>opencog_update_attention_values\<close>, with decay rate 0.95 and threshold
  0.1, on a live atom with \<open>sti = 0.5\<close> and \<open>lti = l\<close>: both are multiplied by 0.95,
  then 0.0475 moves from \<open>sti\<close> to \<open>lti\<close>. The atom is left with \<open>sti = 0.4275\<close> and
  \<open>lti = 0.95 * l + 0.0475\<close> clamped to the unit interval: 0.0475 above the decayed
  \<open>lti\<close>, not above the prior one.
\<close>

theorem decay_tick_atom:
  assumes "i < length (atoms sp)" and "\<not> is_deleted (atoms sp ! i)"
      and "sti (attention_value (atoms sp ! i)) = Fin 0.5"
      and "lti (attention_value (atoms sp ! i)) = Fin l"
      and "attention_decay_rate sp = Fin 0.95" and "attention_threshold sp = Fin 0.1"
  shows "sti (attention_value (atoms (opencog_update_attention_values sp) ! i)) = Fin 0.4275
       \<and> lti (attention_value (atoms (opencog_update_attention_values sp) ! i))
           = Fin (max 0 (min 1 (0.95 * l + 0.0475)))"
  using assms
  by (simp add: opencog_update_attention_values_def decay_atom_def Let_def fgt_def fsub_def
      clamp11_def clamp01_def fminf_def fmaxf_def max_def min_def)

theorem decay_tick_atom_witness:
  "0 < length (atoms decay_example) \<and> \<not> is_deleted (atoms decay_example ! 0)
   \<and> sti (attention_value (atoms decay_example ! 0)) = Fin 0.5
   \<and> lti (attention_value (atoms decay_example ! 0)) = Fin 0.5
   \<and> attention_decay_rate decay_example = Fin 0.95
   \<and> attention_threshold decay_example = Fin 0.1
   \<and> sti (attention_value (atoms (opencog_update_attention_values decay_example) ! 0))
       = Fin 0.4275
   \<and> lti (attention_value (atoms (opencog_update_attention_values decay_example) ! 0))
       = Fin 0.5225"
proof -
  have h: "0 < length (atoms decay_example)" "\<not> is_deleted (atoms decay_example ! 0)"
    "sti (attention_value (atoms decay_example ! 0)) = Fin 0.5"
    "lti (attention_value (atoms decay_example ! 0)) = Fin 0.5"
    "attention_decay_rate decay_example = Fin 0.95"
    "attention_threshold decay_example = Fin 0.1"
    by (simp_all add: decay_example_def atomspace_eval)
  show ?thesis using h decay_tick_atom [OF h] by simp
qed

text \<open>With a prior \<open>lti\<close> of 0.5 the tick leaves 0.5225, not 0.5 + 0.0475.\<close>

theorem decay_tick_counterexample:
  "sti (attention_value (atoms decay_example ! 0)) = Fin 0.5
   \<and> lti (attention_value (atoms decay_example ! 0)) = Fin 0.5
   \<and> attention_decay_rate decay_example = Fin 0.95
   \<and> attention_threshold decay_example = Fin 0.1
   \<and> lti (attention_value (atoms (opencog_update_attention_values decay_example) ! 0))
       = Fin 0.5225
   \<and> \<not> \<bar>0.5225 - (0.5 + 0.0475 :: real)\<bar> \<le> 0.02"
  by (simp add: decay_example_def atomspace_eval)

section \<open>Attention spreading\<close>

text \<open>A loop of the spreading leaves alone the slot of an id that is not among its targets.\<close>

lemma spread_to_frame:
  assumes "i < length (atoms sp)" "atom_id (atoms sp ! i) \<notin> set xs"
  shows "length (atoms (spread_to now amt sp xs)) = length (atoms sp)
       \<and> map atom_id (atoms (spread_to now amt sp xs)) = map atom_id (atoms sp)
       \<and> attention_value (atoms (spread_to now amt sp xs) ! i) = attention_value (atoms sp ! i)
       \<and> outgoing (atoms (spread_to now amt sp xs) ! i) = outgoing (atoms sp ! i)
       \<and> incoming (atoms (spread_to now amt sp xs) ! i) = incoming (atoms sp ! i)"
  using assms
proof (induction xs arbitrary: sp)
  case Nil
  then show ?case by simp
next
  case (Cons x xs)
  obtain r sp' where g: "opencog_get_atom now sp x = (r, sp')" by (cases "opencog_get_atom now sp x")
  from Cons.prems have ne: "atom_id (atoms sp ! i) \<noteq> x" and rest: "atom_id (atoms sp ! i) \<notin> set xs" by auto
  show ?case
  proof (cases r)
    case None
    with g get_atom_NoneD[of now sp x sp'] have "sp' = sp" by simp
    with g None Cons.IH[OF Cons.prems(1) rest] show ?thesis by simp
  next
    case (Some j)
    with g get_atom_SomeD[of now sp x j sp'] have j: "j < length (atoms sp)" "atom_id (atoms sp ! j) = x"
      "sp' = upd_atom j (\<lambda>a. a\<lparr>last_access := now\<rparr>) sp" by simp_all
    let ?sp2 = "upd_atom j (\<lambda>a. a\<lparr>attention_value := (attention_value a)
                 \<lparr>sti := clamp11 (fadd (sti (attention_value a)) amt)\<rparr>\<rparr>) sp'"
    from j ne have ji: "j \<noteq> i" by auto
    have l: "length (atoms ?sp2) = length (atoms sp)" using j by (simp add: upd_atom_def)
    have ids: "map atom_id (atoms ?sp2) = map atom_id (atoms sp)"
      using j by (simp add: upd_atom_def list_eq_iff_nth_eq nth_list_update)
    have same: "atoms ?sp2 ! i = atoms sp ! i" using j ji by (simp add: upd_atom_def)
    have p1: "i < length (atoms ?sp2)" using l Cons.prems(1) by simp
    have p2: "atom_id (atoms ?sp2 ! i) \<notin> set xs" using same rest by simp
    have "spread_to now amt sp (x # xs) = spread_to now amt ?sp2 xs" using g Some by simp
    with Cons.IH[OF p1 p2] l ids same show ?thesis by simp
  qed
qed

text \<open>
  C10. When the source id resolves to a live atom and is not among that atom's own
  outgoing or incoming ids, \<open>opencog_spread_attention\<close> leaves the attention value of the
  source (its \<open>sti\<close>, \<open>lti\<close> and \<open>vlti\<close>) as it was, for every amount: the amount is
  added to the neighbours and nothing is taken from the source.
\<close>

theorem spread_keeps_source:
  assumes "fst (opencog_get_atom now sp source_atom_id) = Some i"
      and "source_atom_id \<notin> set (outgoing (atoms sp ! i))"
      and "source_atom_id \<notin> set (incoming (atoms sp ! i))"
  shows "attention_value (atoms (opencog_spread_attention now sp source_atom_id amount) ! i)
           = attention_value (atoms sp ! i)"
proof -
  obtain sp0 where g: "opencog_get_atom now sp source_atom_id = (Some i, sp0)"
    using assms(1) by (cases "opencog_get_atom now sp source_atom_id") simp
  from get_atom_SomeD[OF g] have i: "i < length (atoms sp)"
    and id: "atom_id (atoms sp ! i) = source_atom_id"
    and sp0: "sp0 = upd_atom i (\<lambda>a. a\<lparr>last_access := now\<rparr>) sp" by auto
  have a0: "atoms sp0 ! i = (atoms sp ! i)\<lparr>last_access := now\<rparr>"
    and i0: "i < length (atoms sp0)"
    using i sp0 by (simp_all add: upd_atom_def)
  define out where "out = outgoing (atoms sp0 ! i)"
  define sp1 where
    "sp1 = (if out \<noteq> [] then spread_to now (fdiv amount (float_of_nat (length out))) sp0 out
            else sp0)"
  have n0: "atom_id (atoms sp0 ! i) \<notin> set out" using a0 id assms(2) by (simp add: out_def)
  have f1: "length (atoms sp1) = length (atoms sp0)
     \<and> map atom_id (atoms sp1) = map atom_id (atoms sp0)
     \<and> attention_value (atoms sp1 ! i) = attention_value (atoms sp0 ! i)
     \<and> outgoing (atoms sp1 ! i) = outgoing (atoms sp0 ! i)
     \<and> incoming (atoms sp1 ! i) = incoming (atoms sp0 ! i)"
    unfolding sp1_def using spread_to_frame[OF i0 n0] by (cases "out = []") simp_all
  define inc where "inc = incoming (atoms sp1 ! i)"
  define sp2 where
    "sp2 = (if inc \<noteq> [] then spread_to now (fdiv amount (float_of_nat (length inc))) sp1 inc
            else sp1)"
  have i1: "i < length (atoms sp1)" using f1 i0 by simp
  have "atom_id (atoms sp1 ! i) = atom_id (atoms sp0 ! i)"
    using f1 i0 i1 by (metis nth_map)
  then have n1: "atom_id (atoms sp1 ! i) \<notin> set inc"
    using f1 a0 id assms(3) by (simp add: inc_def)
  have f2: "attention_value (atoms sp2 ! i) = attention_value (atoms sp1 ! i)"
    unfolding sp2_def using spread_to_frame[OF i1 n1] by (cases "inc = []") simp_all
  have "opencog_spread_attention now sp source_atom_id amount = sp2"
    using g by (simp add: opencog_spread_attention_def Let_def sp2_def inc_def sp1_def out_def)
  then show ?thesis using f2 f1 a0 by simp
qed

theorem spread_keeps_source_witness:
  "fst (opencog_get_atom 6 spread_example 4) = Some 3
   \<and> 4 \<notin> set (outgoing (atoms spread_example ! 3))
   \<and> 4 \<notin> set (incoming (atoms spread_example ! 3))
   \<and> attention_value (atoms (opencog_spread_attention 6 spread_example 4 (Fin 0.4)) ! 3)
       = \<lparr> sti = Fin 0, lti = Fin 0, vlti = Fin 0 \<rparr>
   \<and> sti (attention_value (atoms (opencog_spread_attention 6 spread_example 4 (Fin 0.4)) ! 0))
       = Fin 0.2
   \<and> sti (attention_value (atoms (opencog_spread_attention 6 spread_example 4 (Fin 0.4)) ! 4))
       = Fin 0.4"
proof -
  have h: "fst (opencog_get_atom 6 spread_example 4) = Some 3"
    "4 \<notin> set (outgoing (atoms spread_example ! 3))"
    "4 \<notin> set (incoming (atoms spread_example ! 3))"
    by (simp_all add: spread_example_def three_nodes_def atomspace_eval)
  have v: "attention_value (atoms spread_example ! 3) = \<lparr> sti = Fin 0, lti = Fin 0, vlti = Fin 0 \<rparr>"
    by (simp add: spread_example_def three_nodes_def atomspace_eval)
  have n: "sti (attention_value (atoms (opencog_spread_attention 6 spread_example 4 (Fin 0.4)) ! 0))
       = Fin 0.2
   \<and> sti (attention_value (atoms (opencog_spread_attention 6 spread_example 4 (Fin 0.4)) ! 4))
       = Fin 0.4"
    by (simp add: spread_example_def three_nodes_def atomspace_eval)
  show ?thesis using h v n spread_keeps_source [OF h, of "Fin 0.4"] by simp
qed

section \<open>Inheritance inference\<close>

lemma infer_inheritance_early_return:
  assumes "fst (foldl (scan_step a b c) (0, 0) (atoms sp)) = 0
         \<or> snd (foldl (scan_step a b c) (0, 0) (atoms sp)) = 0"
  shows "opencog_infer_inheritance now sp a b c = (False, sp)"
  using assms by (auto simp: opencog_infer_inheritance_def split: prod.splits)

text \<open>
  C3. With the link from 1 to 2 present and no link from 2 to 3,
  \<open>opencog_infer_inheritance\<close> returns at the test of the two premise links: the result is
  false and the atom space is returned as it was, the counter \<open>total_inferences\<close>
  included, which stays 0.
\<close>

theorem infer_inheritance_missing_premise:
  "opencog_infer_inheritance 5 one_premise 1 2 3 = (False, one_premise)
   \<and> total_inferences (snd (opencog_infer_inheritance 5 one_premise 1 2 3)) = 0"
  by (simp add: one_premise_def three_nodes_def atomspace_eval)

section \<open>The invariant of the atom spaces built by calls\<close>

lemma wf_atomspaceD:
  assumes "wf_atomspace sp" and "i < length (atoms sp)"
  shows "unat (atom_id (atoms sp ! i)) = i + 1" and "\<not> is_deleted (atoms sp ! i)"
    and "\<forall>x\<in>set (outgoing (atoms sp ! i)). 0 < unat x \<and> unat x \<le> length (atoms sp)"
  using assms by (simp_all add: wf_atomspace_def wf_atom_def list_all_iff)

lemma wf_atomspace_bounds:
  assumes "wf_atomspace sp"
  shows "atom_capacity sp = OPENCOG_MAX_ATOMS" and "length (atoms sp) \<le> OPENCOG_MAX_ATOMS"
    and "unat (next_atom_id sp) = length (atoms sp) + 1"
  using assms by (simp_all add: wf_atomspace_def)

lemma find_atom_offset:
  assumes "\<forall>i<length xs. unat (atom_id (xs ! i)) = k + i + 1 \<and> \<not> is_deleted (xs ! i)"
  shows "find_atom xs x =
           (if k < unat x \<and> unat x \<le> k + length xs then Some (unat x - k - 1) else None)"
  using assms
proof (induction xs arbitrary: k)
  case Nil
  then show ?case by simp
next
  case (Cons a xs)
  from Cons.prems have a: "unat (atom_id a) = k + 1" "\<not> is_deleted a" by auto
  have rest: "\<forall>i<length xs. unat (atom_id (xs ! i)) = Suc k + i + 1 \<and> \<not> is_deleted (xs ! i)"
  proof (intro allI impI)
    fix i assume "i < length xs"
    then have "Suc i < length (a # xs)" by simp
    with Cons.prems have "unat (atom_id ((a # xs) ! Suc i)) = k + Suc i + 1 \<and> \<not> is_deleted ((a # xs) ! Suc i)"
      by blast
    then show "unat (atom_id (xs ! i)) = Suc k + i + 1 \<and> \<not> is_deleted (xs ! i)" by simp
  qed
  have eq: "atom_id a = x \<longleftrightarrow> unat x = k + 1"
    using a by (auto simp: word_unat_eq_iff)
  show ?case
  proof (cases "unat x = k + 1")
    case True
    with eq a show ?thesis by simp
  next
    case False
    with eq a Cons.IH[OF rest] show ?thesis by auto
  qed
qed

lemma wf_find:
  assumes "wf_atomspace sp"
  shows "find_atom (atoms sp) x =
           (if 0 < unat x \<and> unat x \<le> length (atoms sp) then Some (unat x - 1) else None)"
  using find_atom_offset[of "atoms sp" 0 x] wf_atomspaceD(1,2)[OF assms] by simp

lemma wf_get_atom:
  assumes "wf_atomspace sp" and "0 < unat x" and "unat x \<le> length (atoms sp)"
  shows "opencog_get_atom now sp x
           = (Some (unat x - 1), upd_atom (unat x - 1) (\<lambda>a. a\<lparr>last_access := now\<rparr>) sp)"
  using assms wf_find[OF assms(1), of x] by (auto simp: opencog_get_atom_def)

subsection \<open>Changes that keep the graph\<close>

lemma quiet_refl: "quiet sp sp"
  by (simp add: quiet_def)

lemma quiet_trans: "quiet a b \<Longrightarrow> quiet b c \<Longrightarrow> quiet a c"
  by (simp add: quiet_def)

lemma quiet_length: "quiet sp sp' \<Longrightarrow> length (atoms sp') = length (atoms sp)"
  by (auto simp: quiet_def dest: map_eq_imp_length_eq)

lemma quiet_nth:
  assumes "quiet sp sp'" and "i < length (atoms sp)"
  shows "links (atoms sp' ! i) = links (atoms sp ! i)"
proof -
  have "map links (atoms sp') ! i = map links (atoms sp) ! i" using assms by (simp add: quiet_def)
  with assms quiet_length[OF assms(1)] show ?thesis by simp
qed

lemma quiet_find_atom:
  assumes "quiet sp sp'"
  shows "find_atom (atoms sp') x = find_atom (atoms sp) x"
proof (rule find_atom_cong)
  have "map fst (map links (atoms sp')) = map fst (map links (atoms sp))"
    using assms by (simp only: quiet_def)
  then show "map atom_id (atoms sp') = map atom_id (atoms sp)" by (simp add: links_def comp_def)
  have "map (fst \<circ> snd) (map links (atoms sp')) = map (fst \<circ> snd) (map links (atoms sp))"
    using assms by (simp only: quiet_def)
  then show "map is_deleted (atoms sp') = map is_deleted (atoms sp)" by (simp add: links_def comp_def)
qed

lemma quiet_upd_atom:
  assumes "links (f (atoms sp ! i)) = links (atoms sp ! i)"
  shows "quiet sp (upd_atom i f sp)"
  using assms map_upd_same[of links "atoms sp" i]
  by (simp add: quiet_def upd_atom_def map_update)

lemma quiet_get_atom: "quiet sp (snd (opencog_get_atom now sp x))"
proof (cases "x = 0")
  case True
  then show ?thesis by (simp add: opencog_get_atom_def quiet_refl)
next
  case False
  show ?thesis
  proof (cases "find_atom (atoms sp) x")
    case None
    with False show ?thesis by (simp add: opencog_get_atom_def quiet_refl)
  next
    case (Some i)
    have "quiet sp (upd_atom i (\<lambda>a. a\<lparr>last_access := now\<rparr>) sp)"
      by (rule quiet_upd_atom) (simp add: links_def)
    with False Some show ?thesis by (simp add: opencog_get_atom_def)
  qed
qed

lemma quiet_wf:
  assumes "quiet sp sp'" and "wf_atomspace sp"
  shows "wf_atomspace sp'"
proof -
  have l: "length (atoms sp') = length (atoms sp)" by (rule quiet_length[OF assms(1)])
  have "wf_atom (length (atoms sp')) i (atoms sp' ! i)" if "i < length (atoms sp')" for i
  proof -
    from that l have i: "i < length (atoms sp)" by simp
    from quiet_nth[OF assms(1) i] wf_atomspaceD[OF assms(2) i] l show ?thesis
      by (simp add: wf_atom_def links_def list_all_iff)
  qed
  with assms l show ?thesis by (simp add: wf_atomspace_def quiet_def list_all_iff)
qed

subsection \<open>Changes that only add\<close>

lemma growsD:
  assumes "grows sp sp'" and "i < length (atoms sp)"
  shows "i < length (atoms sp')" and "atom_id (atoms sp' ! i) = atom_id (atoms sp ! i)"
    and "is_deleted (atoms sp' ! i) = is_deleted (atoms sp ! i)"
    and "outgoing (atoms sp' ! i) = outgoing (atoms sp ! i)"
    and "set (incoming (atoms sp ! i)) \<subseteq> set (incoming (atoms sp' ! i))"
  using assms by (simp_all add: grows_def list_all_iff)

lemma grows_refl: "grows sp sp"
  by (simp add: grows_def list_all_iff)

lemma grows_trans:
  assumes "grows a b" and "grows b c"
  shows "grows a c"
proof -
  have "atom_id (atoms c ! i) = atom_id (atoms a ! i)
      \<and> is_deleted (atoms c ! i) = is_deleted (atoms a ! i)
      \<and> outgoing (atoms c ! i) = outgoing (atoms a ! i)
      \<and> set (incoming (atoms a ! i)) \<subseteq> set (incoming (atoms c ! i))" if "i < length (atoms a)" for i
    using growsD[OF assms(1) that] growsD[OF assms(2), of i] by auto
  moreover have "length (atoms a) \<le> length (atoms c)" using assms by (simp add: grows_def)
  ultimately show ?thesis by (simp add: grows_def list_all_iff)
qed

lemma quiet_grows:
  assumes "quiet sp sp'"
  shows "grows sp sp'"
  using quiet_nth[OF assms] quiet_length[OF assms] by (simp add: grows_def list_all_iff links_def)

lemma quiet_set_truth_value: "quiet sp (opencog_set_truth_value now sp aid s c)"
proof -
  obtain r sp1 where g: "opencog_get_atom now sp aid = (r, sp1)"
    by (cases "opencog_get_atom now sp aid")
  have q1: "quiet sp sp1" using quiet_get_atom[of sp now aid] g by simp
  show ?thesis
  proof (cases r)
    case None
    with g q1 show ?thesis by (simp add: opencog_set_truth_value_def)
  next
    case (Some i)
    have "quiet sp1 (upd_atom i (\<lambda>a. a\<lparr>truth_value :=
              \<lparr> strength = clamp01 s, confidence = clamp01 c, count = Fin 1 \<rparr>\<rparr>) sp1)"
      by (rule quiet_upd_atom) (simp add: links_def)
    with g Some q1 show ?thesis by (simp add: opencog_set_truth_value_def quiet_trans)
  qed
qed

lemma quiet_set_attention_value: "quiet sp (opencog_set_attention_value now sp aid s l v)"
proof -
  obtain r sp1 where g: "opencog_get_atom now sp aid = (r, sp1)"
    by (cases "opencog_get_atom now sp aid")
  have q1: "quiet sp sp1" using quiet_get_atom[of sp now aid] g by simp
  show ?thesis
  proof (cases r)
    case None
    with g q1 show ?thesis by (simp add: opencog_set_attention_value_def)
  next
    case (Some i)
    have "quiet sp1 (upd_atom i (\<lambda>a. a\<lparr>attention_value :=
              \<lparr> sti = clamp11 s, lti = clamp01 l, vlti = clamp01 v \<rparr>\<rparr>) sp1)"
      by (rule quiet_upd_atom) (simp add: links_def)
    with g Some q1 show ?thesis by (simp add: opencog_set_attention_value_def quiet_trans)
  qed
qed

lemma links_decay_atom: "links (decay_atom r t a) = links a"
  by (simp add: decay_atom_def links_def Let_def)

lemma quiet_update_attention_values: "quiet sp (opencog_update_attention_values sp)"
  by (simp add: opencog_update_attention_values_def quiet_def links_decay_atom comp_def)

lemma quiet_spread_to: "quiet sp (spread_to now amt sp xs)"
proof (induction xs arbitrary: sp)
  case Nil
  then show ?case by (simp add: quiet_refl)
next
  case (Cons x xs)
  obtain r sp1 where g: "opencog_get_atom now sp x = (r, sp1)"
    by (cases "opencog_get_atom now sp x")
  have q1: "quiet sp sp1" using quiet_get_atom[of sp now x] g by simp
  show ?case
  proof (cases r)
    case None
    with g have "spread_to now amt sp (x # xs) = spread_to now amt sp1 xs" by simp
    with q1 Cons.IH[of sp1] show ?thesis by (simp add: quiet_trans)
  next
    case (Some j)
    let ?sp2 = "upd_atom j (\<lambda>a. a\<lparr>attention_value := (attention_value a)
                 \<lparr>sti := clamp11 (fadd (sti (attention_value a)) amt)\<rparr>\<rparr>) sp1"
    have q2: "quiet sp1 ?sp2" by (rule quiet_upd_atom) (simp add: links_def)
    from g Some have "spread_to now amt sp (x # xs) = spread_to now amt ?sp2 xs" by simp
    with quiet_trans[OF quiet_trans[OF q1 q2] Cons.IH[of ?sp2]] show ?thesis by simp
  qed
qed

lemma quiet_spread_attention: "quiet sp (opencog_spread_attention now sp src amount)"
proof -
  obtain r sp0 where g: "opencog_get_atom now sp src = (r, sp0)"
    by (cases "opencog_get_atom now sp src")
  have q0: "quiet sp sp0" using quiet_get_atom[of sp now src] g by simp
  show ?thesis
  proof (cases r)
    case None
    with g q0 show ?thesis by (simp add: opencog_spread_attention_def)
  next
    case (Some i)
    define out where "out = outgoing (atoms sp0 ! i)"
    define sp1 where
      "sp1 = (if out \<noteq> [] then spread_to now (fdiv amount (float_of_nat (length out))) sp0 out
              else sp0)"
    define inc where "inc = incoming (atoms sp1 ! i)"
    define sp2 where
      "sp2 = (if inc \<noteq> [] then spread_to now (fdiv amount (float_of_nat (length inc))) sp1 inc
              else sp1)"
    have q1: "quiet sp0 sp1" unfolding sp1_def by (simp add: quiet_refl quiet_spread_to)
    have q2: "quiet sp1 sp2" unfolding sp2_def by (simp add: quiet_refl quiet_spread_to)
    have "opencog_spread_attention now sp src amount = sp2"
      using g Some by (simp add: opencog_spread_attention_def Let_def sp2_def inc_def sp1_def out_def)
    with quiet_trans[OF q0 quiet_trans[OF q1 q2]] show ?thesis by simp
  qed
qed

lemma quiet_verify_outgoing: "quiet sp (snd (verify_outgoing now sp out))"
proof (induction out arbitrary: sp)
  case Nil
  then show ?case by (simp add: quiet_refl)
next
  case (Cons x xs)
  obtain r sp1 where g: "opencog_get_atom now sp x = (r, sp1)"
    by (cases "opencog_get_atom now sp x")
  have q1: "quiet sp sp1" using quiet_get_atom[of sp now x] g by simp
  show ?case
  proof (cases r)
    case None
    with g q1 show ?thesis by simp
  next
    case (Some i)
    with g have "verify_outgoing now sp (x # xs) = verify_outgoing now sp1 xs" by simp
    with q1 Cons.IH[of sp1] show ?thesis by (simp add: quiet_trans)
  qed
qed

lemma verify_outgoing_wf:
  assumes "wf_atomspace sp"
  shows "fst (verify_outgoing now sp out)
           = list_all (\<lambda>x. 0 < unat x \<and> unat x \<le> length (atoms sp)) out"
  using assms
proof (induction out arbitrary: sp)
  case Nil
  then show ?case by simp
next
  case (Cons x xs)
  show ?case
  proof (cases "0 < unat x \<and> unat x \<le> length (atoms sp)")
    case True
    let ?sp1 = "upd_atom (unat x - 1) (\<lambda>a. a\<lparr>last_access := now\<rparr>) sp"
    have g: "opencog_get_atom now sp x = (Some (unat x - 1), ?sp1)"
      using wf_get_atom[OF Cons.prems] True by simp
    have q: "quiet sp ?sp1" using quiet_get_atom[of sp now x] g by simp
    from Cons.IH[OF quiet_wf[OF q Cons.prems]] quiet_length[OF q] g True show ?thesis by simp
  next
    case False
    then have "find_atom (atoms sp) x = None" using wf_find[OF Cons.prems, of x] by auto
    then have "opencog_get_atom now sp x = (None, sp)" by (simp add: opencog_get_atom_def)
    with False show ?thesis by auto
  qed
qed

lemma find_atom_upd_atom:
  assumes "atom_id (f (atoms sp ! i)) = atom_id (atoms sp ! i)"
      and "is_deleted (f (atoms sp ! i)) = is_deleted (atoms sp ! i)"
  shows "find_atom (atoms (upd_atom i f sp)) x = find_atom (atoms sp) x"
  using assms map_upd_same[of atom_id "atoms sp" i] map_upd_same[of is_deleted "atoms sp" i]
  by (intro find_atom_cong) (simp_all add: upd_atom_def map_update)

lemma grows_upd_atom:
  assumes "atom_id (f (atoms sp ! i)) = atom_id (atoms sp ! i)"
      and "is_deleted (f (atoms sp ! i)) = is_deleted (atoms sp ! i)"
      and "outgoing (f (atoms sp ! i)) = outgoing (atoms sp ! i)"
      and "set (incoming (atoms sp ! i)) \<subseteq> set (incoming (f (atoms sp ! i)))"
  shows "grows sp (upd_atom i f sp)"
proof -
  have "atom_id (atoms (upd_atom i f sp) ! k) = atom_id (atoms sp ! k)
      \<and> is_deleted (atoms (upd_atom i f sp) ! k) = is_deleted (atoms sp ! k)
      \<and> outgoing (atoms (upd_atom i f sp) ! k) = outgoing (atoms sp ! k)
      \<and> set (incoming (atoms sp ! k)) \<subseteq> set (incoming (atoms (upd_atom i f sp) ! k))"
    if "k < length (atoms sp)" for k
    using that assms by (cases "k = i") (simp_all add: upd_atom_def)
  then show ?thesis by (simp add: grows_def list_all_iff upd_atom_def)
qed

text \<open>The second loop of the link creation.\<close>

lemma add_incoming_keeps:
  "atom_capacity (add_incoming now aid sp xs) = atom_capacity sp
   \<and> next_atom_id (add_incoming now aid sp xs) = next_atom_id sp
   \<and> length (atoms (add_incoming now aid sp xs)) = length (atoms sp)
   \<and> grows sp (add_incoming now aid sp xs)"
proof (induction xs arbitrary: sp)
  case Nil
  then show ?case by (simp add: grows_refl)
next
  case (Cons x xs)
  obtain r sp1 where g: "opencog_get_atom now sp x = (r, sp1)"
    by (cases "opencog_get_atom now sp x")
  have q1: "quiet sp sp1" using quiet_get_atom[of sp now x] g by simp
  have k1: "atom_capacity sp1 = atom_capacity sp" "next_atom_id sp1 = next_atom_id sp"
    "length (atoms sp1) = length (atoms sp)"
    using q1 quiet_length[OF q1] by (simp_all add: quiet_def)
  show ?case
  proof (cases r)
    case None
    with g have "add_incoming now aid sp (x # xs) = add_incoming now aid sp1 xs" by simp
    with Cons.IH[of sp1] k1 grows_trans[OF quiet_grows[OF q1]] show ?thesis by simp
  next
    case (Some i)
    let ?sp2 = "upd_atom i (\<lambda>a. a\<lparr>incoming := incoming a @ [aid]\<rparr>) sp1"
    have g2: "grows sp1 ?sp2" by (rule grows_upd_atom) auto
    have k2: "atom_capacity ?sp2 = atom_capacity sp" "next_atom_id ?sp2 = next_atom_id sp"
      "length (atoms ?sp2) = length (atoms sp)"
      using k1 by (simp_all add: upd_atom_def)
    from g Some have "add_incoming now aid sp (x # xs) = add_incoming now aid ?sp2 xs" by simp
    with Cons.IH[of ?sp2] k2 grows_trans[OF grows_trans[OF quiet_grows[OF q1] g2]]
    show ?thesis by simp
  qed
qed

lemma add_incoming_adds:
  assumes "x \<in> set xs" and "x \<noteq> 0" and "find_atom (atoms sp) x = Some i"
  shows "aid \<in> set (incoming (atoms (add_incoming now aid sp xs) ! i))"
  using assms
proof (induction xs arbitrary: sp)
  case Nil
  then show ?case by simp
next
  case (Cons y ys)
  obtain r sp1 where g: "opencog_get_atom now sp y = (r, sp1)"
    by (cases "opencog_get_atom now sp y")
  have q1: "quiet sp sp1" using quiet_get_atom[of sp now y] g by simp
  have f1: "find_atom (atoms sp1) x = Some i" using quiet_find_atom[OF q1] Cons.prems(3) by simp
  show ?case
  proof (cases r)
    case None
    with g get_atom_NoneD[of now sp y sp1] have "y = 0 \<or> find_atom (atoms sp) y = None" by simp
    with Cons.prems have "y \<noteq> x" by auto
    with Cons.prems have "x \<in> set ys" by simp
    from Cons.IH[OF this Cons.prems(2) f1] g None show ?thesis by simp
  next
    case (Some j)
    let ?sp2 = "upd_atom j (\<lambda>a. a\<lparr>incoming := incoming a @ [aid]\<rparr>) sp1"
    from g Some get_atom_SomeD[of now sp y j sp1]
    have j: "j < length (atoms sp)" "find_atom (atoms sp) y = Some j" by simp_all
    have step: "add_incoming now aid sp (y # ys) = add_incoming now aid ?sp2 ys"
      using g Some by simp
    have f2: "find_atom (atoms ?sp2) x = Some i"
      using find_atom_upd_atom[of "\<lambda>a. a\<lparr>incoming := incoming a @ [aid]\<rparr>" sp1 j x] f1 by simp
    show ?thesis
    proof (cases "y = x")
      case True
      with j Cons.prems(3) have ji: "j = i" by simp
      have "i < length (atoms sp1)" using j ji quiet_length[OF q1] by simp
      then have here: "aid \<in> set (incoming (atoms ?sp2 ! i))" using ji by (simp add: upd_atom_def)
      have "i < length (atoms ?sp2)" using j ji quiet_length[OF q1] by (simp add: upd_atom_def)
      from growsD(5)[OF conjunct2[OF conjunct2[OF conjunct2[OF add_incoming_keeps]]] this, of now aid ys]
        here step show ?thesis by auto
    next
      case False
      with Cons.prems have "x \<in> set ys" by simp
      from Cons.IH[OF this Cons.prems(2) f2] step show ?thesis by simp
    qed
  qed
qed

text \<open>Appending the atom with the next id keeps the invariant.\<close>

lemma wf_append:
  assumes wf: "wf_atomspace sp"
      and room: "length (atoms sp) < atom_capacity sp"
      and cap: "atom_capacity sp' = atom_capacity sp"
      and nxt: "next_atom_id sp' = next_atom_id sp + 1"
      and ats: "atoms sp' = xs @ [a]"
      and len: "length xs = length (atoms sp)"
      and old: "\<And>i. i < length (atoms sp) \<Longrightarrow>
                 atom_id (xs ! i) = atom_id (atoms sp ! i)
                 \<and> is_deleted (xs ! i) = is_deleted (atoms sp ! i)
                 \<and> outgoing (xs ! i) = outgoing (atoms sp ! i)"
      and new: "atom_id a = next_atom_id sp" "\<not> is_deleted a"
               "\<forall>x\<in>set (outgoing a). 0 < unat x \<and> unat x \<le> length (atoms sp)"
  shows "wf_atomspace sp'"
proof -
  let ?n = "length (atoms sp)"
  have b: "atom_capacity sp = OPENCOG_MAX_ATOMS" "unat (next_atom_id sp) = ?n + 1"
    using wf_atomspace_bounds[OF wf] by simp_all
  have n: "?n < 2048" using room b by (simp add: OPENCOG_MAX_ATOMS_def)
  have "unat (next_atom_id sp) + unat (1 :: 64 word) < 2 ^ LENGTH(64)" using b n by simp
  then have "unat (next_atom_id sp + 1) = unat (next_atom_id sp) + unat (1 :: 64 word)"
    by (rule unat_add_lem[THEN iffD1])
  then have u: "unat (next_atom_id sp + 1) = ?n + 2" using b by simp
  have l': "length (atoms sp') = ?n + 1" using ats len by simp
  have "wf_atom (length (atoms sp')) i (atoms sp' ! i)" if "i < length (atoms sp')" for i
  proof (cases "i < ?n")
    case True
    then have "atoms sp' ! i = xs ! i" using ats len by (simp add: nth_append)
    with old[OF True] wf_atomspaceD[OF wf True] l' show ?thesis
      by (auto simp: wf_atom_def list_all_iff)
  next
    case False
    with that l' have "i = ?n" by simp
    then have "atoms sp' ! i = a" using ats len by (simp add: nth_append)
    with new b l' \<open>i = ?n\<close> show ?thesis by (auto simp: wf_atom_def list_all_iff)
  qed
  with cap nxt b n u l' show ?thesis
    by (simp add: wf_atomspace_def list_all_iff OPENCOG_MAX_ATOMS_def)
qed

lemma grows_append:
  assumes "atoms sp' = xs @ [a]" and "length xs = length (atoms sp)"
      and "\<And>i. i < length (atoms sp) \<Longrightarrow>
                 atom_id (xs ! i) = atom_id (atoms sp ! i)
                 \<and> is_deleted (xs ! i) = is_deleted (atoms sp ! i)
                 \<and> outgoing (xs ! i) = outgoing (atoms sp ! i)
                 \<and> set (incoming (atoms sp ! i)) \<subseteq> set (incoming (xs ! i))"
  shows "grows sp sp'"
  using assms by (simp add: grows_def list_all_iff nth_append)

lemma add_node_wf_grows:
  assumes "wf_atomspace sp"
  shows "wf_atomspace (snd (opencog_add_node now sp ty nm))
       \<and> grows sp (snd (opencog_add_node now sp ty nm))"
proof (cases nm)
  case None
  with assms show ?thesis by (simp add: opencog_add_node_def grows_refl)
next
  case (Some s)
  show ?thesis
  proof (cases "atom_capacity sp \<le> length (atoms sp)")
    case True
    with Some assms show ?thesis by (simp add: opencog_add_node_def grows_refl)
  next
    case False
    define a where "a = \<lparr> atom_id = next_atom_id sp,
                         name = take (OPENCOG_MAX_ATOM_NAME - 1) s,
                         atom_type = ty,
                         truth_value = \<lparr> strength = default_strength sp,
                                         confidence = default_confidence sp,
                                         count = Fin 1 \<rparr>,
                         attention_value = \<lparr> sti = Fin 0, lti = Fin 0, vlti = Fin 0 \<rparr>,
                         cogfluence_unit_id = 0,
                         outgoing = [], incoming = [],
                         creation_time = now, last_access = now,
                         is_deleted = False \<rparr>"
    define sp' where "sp' = sp\<lparr>atoms := atoms sp @ [a], next_atom_id := next_atom_id sp + 1\<rparr>"
    have r: "snd (opencog_add_node now sp ty nm) = sp'"
      using Some False by (simp add: opencog_add_node_def Let_def sp'_def a_def)
    have "wf_atomspace sp'"
      by (rule wf_append[OF assms, where xs = "atoms sp" and a = a])
         (use False in \<open>simp_all add: sp'_def a_def\<close>)
    moreover have "grows sp sp'"
      by (rule grows_append[where xs = "atoms sp" and a = a]) (simp_all add: sp'_def)
    ultimately show ?thesis using r by simp
  qed
qed

lemma add_link_fail:
  assumes "wf_atomspace sp"
      and "out = [] \<or> atom_capacity sp \<le> length (atoms sp)
           \<or> \<not> list_all (\<lambda>x. 0 < unat x \<and> unat x \<le> length (atoms sp)) out"
  shows "fst (opencog_add_link now sp ty out) = 0
       \<and> quiet sp (snd (opencog_add_link now sp ty out))"
proof (cases "out = [] \<or> atom_capacity sp \<le> length (atoms sp)")
  case True
  then show ?thesis by (auto simp: opencog_add_link_def quiet_refl)
next
  case False
  with assms(2) have "fst (verify_outgoing now sp out) = False"
    using verify_outgoing_wf[OF assms(1), of now out] by simp
  then obtain sp1 where v: "verify_outgoing now sp out = (False, sp1)"
    by (cases "verify_outgoing now sp out") simp
  have "quiet sp sp1" using quiet_verify_outgoing[of sp now out] v by simp
  with v False show ?thesis by (simp add: opencog_add_link_def)
qed

lemma add_link_ok:
  assumes wf: "wf_atomspace sp"
      and ne: "out \<noteq> []"
      and room: "length (atoms sp) < atom_capacity sp"
      and res: "list_all (\<lambda>x. 0 < unat x \<and> unat x \<le> length (atoms sp)) out"
  shows "fst (opencog_add_link now sp ty out) = next_atom_id sp
       \<and> unat (fst (opencog_add_link now sp ty out)) = length (atoms sp) + 1
       \<and> wf_atomspace (snd (opencog_add_link now sp ty out))
       \<and> grows sp (snd (opencog_add_link now sp ty out))
       \<and> length (atoms (snd (opencog_add_link now sp ty out))) = length (atoms sp) + 1
       \<and> outgoing (atoms (snd (opencog_add_link now sp ty out)) ! length (atoms sp)) = out
       \<and> atom_type (atoms (snd (opencog_add_link now sp ty out)) ! length (atoms sp)) = ty
       \<and> (\<forall>x\<in>set out. next_atom_id sp
              \<in> set (incoming (atoms (snd (opencog_add_link now sp ty out)) ! (unat x - 1))))"
proof -
  let ?n = "length (atoms sp)"
  have "fst (verify_outgoing now sp out) = True"
    using verify_outgoing_wf[OF wf, of now out] res by simp
  then obtain sp1 where v: "verify_outgoing now sp out = (True, sp1)"
    by (cases "verify_outgoing now sp out") simp
  have q1: "quiet sp sp1" using quiet_verify_outgoing[of sp now out] v by simp
  have wf1: "wf_atomspace sp1" by (rule quiet_wf[OF q1 wf])
  have l1: "length (atoms sp1) = ?n" by (rule quiet_length[OF q1])
  have k1: "atom_capacity sp1 = atom_capacity sp" "next_atom_id sp1 = next_atom_id sp"
    using q1 by (simp_all add: quiet_def)
  define aid where "aid = next_atom_id sp"
  define sp2 where "sp2 = sp1\<lparr>next_atom_id := aid + 1\<rparr>"
  define a where "a = \<lparr> atom_id = aid,
                            name = ''Link_'' @ decimal (unat aid),
                            atom_type = ty,
                            truth_value = \<lparr> strength = default_strength sp2,
                                            confidence = default_confidence sp2,
                                            count = Fin 1 \<rparr>,
                            attention_value = \<lparr> sti = Fin 0, lti = Fin 0, vlti = Fin 0 \<rparr>,
                            cogfluence_unit_id = 0,
                            outgoing = out, incoming = [],
                            creation_time = now, last_access = now,
                            is_deleted = False \<rparr>"
  define sp3 where "sp3 = add_incoming now aid sp2 out"
  define sp' where "sp' = sp3\<lparr>atoms := atoms sp3 @ [a]\<rparr>"
  have r: "opencog_add_link now sp ty out = (aid, sp')"
    using v ne room k1
    by (simp add: opencog_add_link_def Let_def sp'_def sp3_def a_def sp2_def aid_def)
  have k3: "atom_capacity sp3 = atom_capacity sp1" "next_atom_id sp3 = aid + 1"
    "length (atoms sp3) = ?n" and g3: "grows sp2 sp3"
    using add_incoming_keeps[of now aid sp2 out] l1 by (simp_all add: sp3_def sp2_def)
  have a2: "atoms sp2 = atoms sp1" by (simp add: sp2_def)
  have old: "atom_id (atoms sp3 ! i) = atom_id (atoms sp1 ! i)
           \<and> is_deleted (atoms sp3 ! i) = is_deleted (atoms sp1 ! i)
           \<and> outgoing (atoms sp3 ! i) = outgoing (atoms sp1 ! i)
           \<and> set (incoming (atoms sp1 ! i)) \<subseteq> set (incoming (atoms sp3 ! i))"
    if "i < length (atoms sp1)" for i
    using growsD[OF g3, of i] that a2 by simp
  have u: "unat aid = ?n + 1" using wf_atomspace_bounds(3)[OF wf] by (simp add: aid_def)
  have wf': "wf_atomspace sp'"
  proof (rule wf_append[OF wf1, where xs = "atoms sp3" and a = a])
    show "length (atoms sp1) < atom_capacity sp1" using room l1 k1 by simp
    show "atom_capacity sp' = atom_capacity sp1" using k3 by (simp add: sp'_def)
    show "next_atom_id sp' = next_atom_id sp1 + 1" using k3 k1 by (simp add: sp'_def aid_def)
    show "atoms sp' = atoms sp3 @ [a]" by (simp add: sp'_def)
    show "length (atoms sp3) = length (atoms sp1)" using k3 l1 by simp
    show "atom_id (atoms sp3 ! i) = atom_id (atoms sp1 ! i)
           \<and> is_deleted (atoms sp3 ! i) = is_deleted (atoms sp1 ! i)
           \<and> outgoing (atoms sp3 ! i) = outgoing (atoms sp1 ! i)" if "i < length (atoms sp1)" for i
      using old[OF that] by simp
    show "atom_id a = next_atom_id sp1" using k1 by (simp add: a_def aid_def)
    show "\<not> is_deleted a" by (simp add: a_def)
    show "\<forall>x\<in>set (outgoing a). 0 < unat x \<and> unat x \<le> length (atoms sp1)"
      using res l1 by (simp add: a_def list_all_iff)
  qed
  have "grows sp1 sp'"
    by (rule grows_append[where xs = "atoms sp3" and a = a])
       (use k3 l1 old in \<open>simp_all add: sp'_def\<close>)
  then have gr: "grows sp sp'" using grows_trans[OF quiet_grows[OF q1]] by simp
  have new: "atoms sp' ! ?n = a" using k3 by (simp add: sp'_def nth_append)
  have inc: "aid \<in> set (incoming (atoms sp' ! (unat x - 1)))" if "x \<in> set out" for x
  proof -
    from that res have x: "0 < unat x" "unat x \<le> ?n" by (simp_all add: list_all_iff)
    then have nz: "x \<noteq> 0" by (simp add: unat_gt_0)
    have "find_atom (atoms sp2) x = Some (unat x - 1)"
      using wf_find[OF wf1, of x] x l1 a2 by simp
    from add_incoming_adds[OF that nz this, of aid now]
    have "aid \<in> set (incoming (atoms sp3 ! (unat x - 1)))" by (simp add: sp3_def)
    moreover have "atoms sp' ! (unat x - 1) = atoms sp3 ! (unat x - 1)"
      using x k3 by (simp add: sp'_def nth_append)
    ultimately show ?thesis by simp
  qed
  show ?thesis using r u wf' gr new inc k3 by (simp add: sp'_def a_def aid_def)
qed

lemma add_link_wf_grows:
  assumes "wf_atomspace sp"
  shows "wf_atomspace (snd (opencog_add_link now sp ty out))
       \<and> grows sp (snd (opencog_add_link now sp ty out))"
proof (cases "out \<noteq> [] \<and> length (atoms sp) < atom_capacity sp
              \<and> list_all (\<lambda>x. 0 < unat x \<and> unat x \<le> length (atoms sp)) out")
  case True
  with add_link_ok[OF assms, of out now ty] show ?thesis by simp
next
  case False
  then have "quiet sp (snd (opencog_add_link now sp ty out))"
    using add_link_fail[OF assms, of out now ty] by auto
  then show ?thesis using quiet_wf[OF _ assms] quiet_grows by blast
qed

lemma add_link_nonzero:
  assumes "wf_atomspace sp" and "fst (opencog_add_link now sp ty out) \<noteq> 0"
  shows "out \<noteq> [] \<and> length (atoms sp) < atom_capacity sp
       \<and> list_all (\<lambda>x. 0 < unat x \<and> unat x \<le> length (atoms sp)) out"
proof (rule ccontr)
  assume "\<not> ?thesis"
  then have "out = [] \<or> atom_capacity sp \<le> length (atoms sp)
           \<or> \<not> list_all (\<lambda>x. 0 < unat x \<and> unat x \<le> length (atoms sp)) out"
    by (simp add: not_less)
  from add_link_fail[OF assms(1) this, of now ty] assms(2) show False by simp
qed

lemma quiet_fields:
  "quiet sp (sp\<lparr>total_inferences := t\<rparr>)"
  "quiet sp (sp\<lparr>total_inferences := t, successful_inferences := s\<rparr>)"
  "quiet sp (sp\<lparr>reasoning_accuracy := r\<rparr>)"
  by (simp_all add: quiet_def)

lemma quiet_get_truth_value: "quiet sp (snd (opencog_get_truth_value now sp aid))"
  using quiet_get_atom[of sp now aid]
  by (cases "opencog_get_atom now sp aid")
     (auto simp: opencog_get_truth_value_def split: option.splits)

lemma quiet_step:
  assumes "wf_atomspace sp" and "quiet sp sp'"
  shows "wf_atomspace sp' \<and> grows sp sp'"
  using quiet_wf[OF assms(2,1)] quiet_grows[OF assms(2)] by simp

lemma step_trans:
  assumes "wf_atomspace sp1 \<and> grows sp sp1" and "wf_atomspace sp1 \<Longrightarrow> wf_atomspace sp2 \<and> grows sp1 sp2"
  shows "wf_atomspace sp2 \<and> grows sp sp2"
  using assms grows_trans by blast

lemma from_cogfluence_unit_wf_grows:
  assumes "wf_atomspace sp"
  shows "wf_atomspace (snd (opencog_from_cogfluence_unit now sp u))
       \<and> grows sp (snd (opencog_from_cogfluence_unit now sp u))"
proof -
  obtain aid sp1 where n: "opencog_add_node now sp (unit_atom_type (unit_type u)) (Some (unit_name u)) = (aid, sp1)"
    by (cases "opencog_add_node now sp (unit_atom_type (unit_type u)) (Some (unit_name u))")
  have s1: "wf_atomspace sp1 \<and> grows sp sp1"
    using add_node_wf_grows[OF assms, of now "unit_atom_type (unit_type u)" "Some (unit_name u)"] n
    by simp
  show ?thesis
  proof (cases "aid = 0")
    case True
    with n s1 show ?thesis by (simp add: opencog_from_cogfluence_unit_def)
  next
    case False
    obtain r sp2 where g: "opencog_get_atom now sp1 aid = (r, sp2)"
      by (cases "opencog_get_atom now sp1 aid")
    have q2: "quiet sp1 sp2" using quiet_get_atom[of sp1 now aid] g by simp
    show ?thesis
    proof (cases r)
      case None
      with n g False have "snd (opencog_from_cogfluence_unit now sp u) = sp2"
        by (simp add: opencog_from_cogfluence_unit_def)
      with step_trans[OF s1 quiet_step[OF _ q2]] show ?thesis by simp
    next
      case (Some i)
      define f :: "opencog_atom_t \<Rightarrow> opencog_atom_t" where "f = (\<lambda>a. a\<lparr>
                    truth_value := (truth_value a)\<lparr>strength := unit_truth_value u,
                                                    confidence := unit_confidence u\<rparr>,
                    attention_value := (attention_value a)\<lparr>sti := unit_attention_value u,
                                                            lti := unit_activation_level u\<rparr>,
                    cogfluence_unit_id := unit_atomspace_id u\<rparr>)"
      have q3: "quiet sp2 (upd_atom i f sp2)"
        by (rule quiet_upd_atom) (simp add: links_def f_def)
      from n g False Some have "snd (opencog_from_cogfluence_unit now sp u) = upd_atom i f sp2"
        by (simp add: opencog_from_cogfluence_unit_def f_def)
      with step_trans[OF s1 quiet_step[OF _ quiet_trans[OF q2 q3]]] show ?thesis by simp
    qed
  qed
qed

lemma infer_inheritance_wf_grows:
  assumes "wf_atomspace sp"
  shows "wf_atomspace (snd (opencog_infer_inheritance now sp a b c))
       \<and> grows sp (snd (opencog_infer_inheritance now sp a b c))"
proof -
  obtain ab bc where sc: "foldl (scan_step a b c) (0, 0) (atoms sp) = (ab, bc)"
    by (cases "foldl (scan_step a b c) (0, 0) (atoms sp)")
  show ?thesis
  proof (cases "ab = 0 \<or> bc = 0")
    case True
    with sc assms show ?thesis by (auto simp: opencog_infer_inheritance_def grows_refl)
  next
    case False
    obtain tv_ab sp1 where g1: "opencog_get_truth_value now sp ab = (tv_ab, sp1)"
      by (cases "opencog_get_truth_value now sp ab")
    obtain tv_bc sp2 where g2: "opencog_get_truth_value now sp1 bc = (tv_bc, sp2)"
      by (cases "opencog_get_truth_value now sp1 bc")
    obtain ac sp3 where al: "opencog_add_link now sp2 OPENCOG_INHERITANCE_LINK [a, c] = (ac, sp3)"
      by (cases "opencog_add_link now sp2 OPENCOG_INHERITANCE_LINK [a, c]")
    have q1: "quiet sp sp1" using quiet_get_truth_value[of sp now ab] g1 by simp
    have q2: "quiet sp1 sp2" using quiet_get_truth_value[of sp1 now bc] g2 by simp
    have s2: "wf_atomspace sp2 \<and> grows sp sp2" by (rule quiet_step[OF assms quiet_trans[OF q1 q2]])
    have "wf_atomspace sp3 \<and> grows sp2 sp3"
      using add_link_wf_grows[OF conjunct1[OF s2], of now OPENCOG_INHERITANCE_LINK "[a, c]"] al
      by simp
    then have s3: "wf_atomspace sp3 \<and> grows sp sp3" using step_trans[OF s2, of sp3] by blast
    show ?thesis
    proof (cases "ac = 0")
      case True
      with sc False g1 g2 al have "snd (opencog_infer_inheritance now sp a b c)
          = sp3\<lparr>total_inferences := total_inferences sp3 + 1\<rparr>"
        by (simp add: opencog_infer_inheritance_def Let_def)
      with step_trans[OF s3 quiet_step[OF _ quiet_fields(1)]] show ?thesis by simp
    next
      case nz: False
      define s where "s = fmul (strength tv_ab) (strength tv_bc)"
      define cf where "cf = fdiv (fmul (confidence tv_ab) (confidence tv_bc))
                      (fsub (fadd (confidence tv_ab) (confidence tv_bc))
                            (fmul (confidence tv_ab) (confidence tv_bc)))"
      define sp4 where "sp4 = opencog_set_truth_value now sp3 ac s cf"
      define sp5 where "sp5 = sp4\<lparr>total_inferences := total_inferences sp4 + 1,
                              successful_inferences := successful_inferences sp4 + 1\<rparr>"
      define sp6 where "sp6 = sp5\<lparr>reasoning_accuracy :=
                       fdiv (float_of_u64 (successful_inferences sp5))
                            (float_of_u64 (total_inferences sp5))\<rparr>"
      have "quiet sp3 sp4" unfolding sp4_def by (rule quiet_set_truth_value)
      moreover have "quiet sp4 sp5" unfolding sp5_def by (rule quiet_fields(2))
      moreover have "quiet sp5 sp6" unfolding sp6_def by (rule quiet_fields(3))
      ultimately have q: "quiet sp3 sp6" using quiet_trans by blast
      from sc False g1 g2 al nz have "snd (opencog_infer_inheritance now sp a b c) = sp6"
        by (simp add: opencog_infer_inheritance_def Let_def sp6_def sp5_def sp4_def s_def cf_def)
      with step_trans[OF s3 quiet_step[OF _ q]] show ?thesis by simp
    qed
  qed
qed

lemma infer_similarity_wf_grows:
  assumes "wf_atomspace sp"
  shows "wf_atomspace (snd (opencog_infer_similarity now sp a b))
       \<and> grows sp (snd (opencog_infer_similarity now sp a b))"
proof -
  obtain common total_a total_b
    where sc: "foldl (sim_step a b) (Fin 0, Fin 0, Fin 0) (atoms sp) = (common, total_a, total_b)"
    by (cases "foldl (sim_step a b) (Fin 0, Fin 0, Fin 0) (atoms sp)") auto
  define similarity where
    "similarity = (if fgt (fsub (fadd total_a total_b) common) (Fin 0)
                   then fdiv common (fsub (fadd total_a total_b) common) else Fin 0)"
  have unfold: "opencog_infer_similarity now sp a b =
      (if fgt similarity (Fin 0.1) then
           (case opencog_add_link now sp OPENCOG_SIMILARITY_LINK [a, b] of (sim_link, sp1) \<Rightarrow>
              if sim_link \<noteq> 0 then
                 let cf = fminf (Fin 0.9) (fdiv common (Fin 10));
                     sp2 = opencog_set_truth_value now sp1 sim_link similarity cf;
                     sp3 = sp2\<lparr>total_inferences := total_inferences sp2 + 1,
                               successful_inferences := successful_inferences sp2 + 1\<rparr>
                 in (True, sp3\<lparr>reasoning_accuracy :=
                        fdiv (float_of_u64 (successful_inferences sp3))
                             (float_of_u64 (total_inferences sp3))\<rparr>)
               else (False, sp1\<lparr>total_inferences := total_inferences sp1 + 1\<rparr>))
         else (False, sp\<lparr>total_inferences := total_inferences sp + 1\<rparr>))"
    unfolding opencog_infer_similarity_def sc similarity_def by (simp only: Let_def prod.case)
  show ?thesis
  proof (cases "fgt similarity (Fin 0.1)")
    case False
    with unfold have "snd (opencog_infer_similarity now sp a b)
        = sp\<lparr>total_inferences := total_inferences sp + 1\<rparr>"
      by simp
    with quiet_step[OF assms quiet_fields(1)] show ?thesis by simp
  next
    case True
    obtain sl sp1 where al: "opencog_add_link now sp OPENCOG_SIMILARITY_LINK [a, b] = (sl, sp1)"
      by (cases "opencog_add_link now sp OPENCOG_SIMILARITY_LINK [a, b]")
    have s1: "wf_atomspace sp1 \<and> grows sp sp1"
      using add_link_wf_grows[OF assms, of now OPENCOG_SIMILARITY_LINK "[a, b]"] al by simp
    show ?thesis
    proof (cases "sl = 0")
      case z: True
      with unfold True al have "snd (opencog_infer_similarity now sp a b)
          = sp1\<lparr>total_inferences := total_inferences sp1 + 1\<rparr>"
        by simp
      with step_trans[OF s1 quiet_step[OF _ quiet_fields(1)]] show ?thesis by simp
    next
      case nz: False
      define sp2 where "sp2 = opencog_set_truth_value now sp1 sl similarity
                                (fminf (Fin 0.9) (fdiv common (Fin 10)))"
      define sp3 where "sp3 = sp2\<lparr>total_inferences := total_inferences sp2 + 1,
                               successful_inferences := successful_inferences sp2 + 1\<rparr>"
      define sp4 where "sp4 = sp3\<lparr>reasoning_accuracy :=
                        fdiv (float_of_u64 (successful_inferences sp3))
                             (float_of_u64 (total_inferences sp3))\<rparr>"
      have "quiet sp1 sp2" unfolding sp2_def by (rule quiet_set_truth_value)
      moreover have "quiet sp2 sp3" unfolding sp3_def by (rule quiet_fields(2))
      moreover have "quiet sp3 sp4" unfolding sp4_def by (rule quiet_fields(3))
      ultimately have q: "quiet sp1 sp4" using quiet_trans by blast
      from unfold True al nz have "snd (opencog_infer_similarity now sp a b) = sp4"
        by (simp add: Let_def sp4_def sp3_def sp2_def)
      with step_trans[OF s1 quiet_step[OF _ q]] show ?thesis by simp
    qed
  qed
qed

lemma call_wf_grows:
  assumes "wf_atomspace sp"
  shows "wf_atomspace (call now c sp) \<and> grows sp (call now c sp)"
proof (cases c)
  case (Add_node ty nm)
  with add_node_wf_grows[OF assms] show ?thesis by simp
next
  case (Add_link ty out)
  with add_link_wf_grows[OF assms] show ?thesis by simp
next
  case (Get_atom aid)
  with quiet_step[OF assms quiet_get_atom] show ?thesis by simp
next
  case (Set_truth_value aid s c)
  with quiet_step[OF assms quiet_set_truth_value] show ?thesis by simp
next
  case (Set_attention_value aid s l v)
  with quiet_step[OF assms quiet_set_attention_value] show ?thesis by simp
next
  case Update_attention_values
  with quiet_step[OF assms quiet_update_attention_values] show ?thesis by simp
next
  case (Spread_attention aid amount)
  with quiet_step[OF assms quiet_spread_attention] show ?thesis by simp
next
  case (From_cogfluence_unit u)
  with from_cogfluence_unit_wf_grows[OF assms] show ?thesis by simp
next
  case (Infer_inheritance a b c)
  with infer_inheritance_wf_grows[OF assms] show ?thesis by simp
next
  case (Infer_similarity a b)
  with infer_similarity_wf_grows[OF assms] show ?thesis by simp
qed

lemma run_wf_grows:
  assumes "wf_atomspace sp"
  shows "wf_atomspace (run cs sp) \<and> grows sp (run cs sp)"
  using assms
proof (induction cs arbitrary: sp)
  case Nil
  then show ?case by (simp add: grows_refl)
next
  case (Cons nc cs)
  obtain now c where nc: "nc = (now, c)" by (cases nc)
  from call_wf_grows[OF Cons.prems, of now c] Cons.IH[of "call now c sp"] nc
  show ?case using grows_trans by auto
qed

lemma init_wf: "wf_atomspace opencog_atomspace_init"
  by (simp add: wf_atomspace_def opencog_atomspace_init_def OPENCOG_MAX_ATOMS_def)

lemma reachable_wf: "wf_atomspace (run cs opencog_atomspace_init)"
  using run_wf_grows[OF init_wf] by simp

section \<open>The deduction of an inheritance link\<close>













section \<open>Outgoing and incoming lists of a new link\<close>

lemma wf_query_outgoing:
  assumes "wf_atomspace sp" and "0 < unat x" and "unat x \<le> length (atoms sp)"
  shows "fst (opencog_query_outgoing now sp x) = outgoing (atoms sp ! (unat x - 1))"
  using wf_get_atom[OF assms, of now] assms
  by (simp add: opencog_query_outgoing_def upd_atom_def)

lemma wf_query_incoming:
  assumes "wf_atomspace sp" and "0 < unat x" and "unat x \<le> length (atoms sp)"
  shows "fst (opencog_query_incoming now sp x) = incoming (atoms sp ! (unat x - 1))"
  using wf_get_atom[OF assms, of now] assms
  by (simp add: opencog_query_incoming_def upd_atom_def)

text \<open>
  C2. When \<open>opencog_add_link\<close> succeeds with the outgoing list \<open>[A, B]\<close> on an atom
  space built by calls from the initial one, and returns the id \<open>L\<close>, then after any
  further calls \<open>opencog_query_outgoing\<close> of \<open>L\<close> returns \<open>[A, B]\<close>, and the
  results of \<open>opencog_query_incoming\<close> of \<open>A\<close> and of \<open>B\<close> contain \<open>L\<close>.
\<close>

theorem add_link_duality:
  assumes ok: "fst (opencog_add_link now (run cs opencog_atomspace_init) ty [A, B]) \<noteq> 0"
  shows "fst (opencog_query_outgoing t1
                (run cs' (snd (opencog_add_link now (run cs opencog_atomspace_init) ty [A, B])))
                (fst (opencog_add_link now (run cs opencog_atomspace_init) ty [A, B]))) = [A, B]
       \<and> fst (opencog_add_link now (run cs opencog_atomspace_init) ty [A, B])
           \<in> set (fst (opencog_query_incoming t2
                (run cs' (snd (opencog_add_link now (run cs opencog_atomspace_init) ty [A, B]))) A))
       \<and> fst (opencog_add_link now (run cs opencog_atomspace_init) ty [A, B])
           \<in> set (fst (opencog_query_incoming t3
                (run cs' (snd (opencog_add_link now (run cs opencog_atomspace_init) ty [A, B]))) B))"
proof -
  define sp where "sp = run cs opencog_atomspace_init"
  define L where "L = fst (opencog_add_link now sp ty [A, B])"
  define sp' where "sp' = snd (opencog_add_link now sp ty [A, B])"
  define sp'' where "sp'' = run cs' sp'"
  let ?n = "length (atoms sp)"
  have wf: "wf_atomspace sp" unfolding sp_def by (rule reachable_wf)
  have nz: "fst (opencog_add_link now sp ty [A, B]) \<noteq> 0" using ok by (simp add: sp_def)
  from add_link_nonzero[OF wf nz]
  have ne: "[A, B] \<noteq> []" and room: "?n < atom_capacity sp"
    and res: "list_all (\<lambda>x. 0 < unat x \<and> unat x \<le> ?n) [A, B]" by simp_all
  have facts: "L = next_atom_id sp \<and> unat L = ?n + 1 \<and> wf_atomspace sp' \<and> grows sp sp'
      \<and> length (atoms sp') = ?n + 1 \<and> outgoing (atoms sp' ! ?n) = [A, B]
      \<and> atom_type (atoms sp' ! ?n) = ty
      \<and> (\<forall>x\<in>set [A, B]. next_atom_id sp \<in> set (incoming (atoms sp' ! (unat x - 1))))"
    unfolding L_def sp'_def by (rule add_link_ok[OF wf ne room res])
  have uL: "unat L = ?n + 1" using facts wf_atomspace_bounds(3)[OF wf] by simp
  from facts have wf': "wf_atomspace sp'" and l': "length (atoms sp') = ?n + 1"
    and out: "outgoing (atoms sp' ! ?n) = [A, B]"
    and inA: "L \<in> set (incoming (atoms sp' ! (unat A - 1)))"
    and inB: "L \<in> set (incoming (atoms sp' ! (unat B - 1)))"
    by simp_all
  have wf'': "wf_atomspace sp''" and gr: "grows sp' sp''"
    using run_wf_grows[OF wf', of cs'] by (simp_all add: sp''_def)
  have l'': "?n + 1 \<le> length (atoms sp'')" using gr l' by (simp add: grows_def)
  have uA: "0 < unat A" "unat A \<le> ?n" and uB: "0 < unat B" "unat B \<le> ?n"
    using res by simp_all
  have iA: "unat A - 1 < length (atoms sp')" and iB: "unat B - 1 < length (atoms sp')"
    and iL: "?n < length (atoms sp')"
    using uA uB l' by simp_all
  have q1: "fst (opencog_query_outgoing t1 sp'' L) = [A, B]"
    using wf_query_outgoing[OF wf'', of L t1] uL l'' growsD(4)[OF gr iL] out by simp
  have q2: "L \<in> set (fst (opencog_query_incoming t2 sp'' A))"
    using wf_query_incoming[OF wf'', of A t2] uA l'' growsD(5)[OF gr iA] inA by auto
  have q3: "L \<in> set (fst (opencog_query_incoming t3 sp'' B))"
    using wf_query_incoming[OF wf'', of B t3] uB l'' growsD(5)[OF gr iB] inB by auto
  from q1 q2 q3 show ?thesis by (simp add: sp''_def sp'_def L_def sp_def)
qed

theorem add_link_duality_witness:
  "fst (opencog_add_link 4 (run three_nodes opencog_atomspace_init) OPENCOG_INHERITANCE_LINK [1, 2]) = 4
   \<and> fst (opencog_query_outgoing 9
            (run later_calls (snd (opencog_add_link 4 (run three_nodes opencog_atomspace_init)
                                     OPENCOG_INHERITANCE_LINK [1, 2]))) 4) = [1, 2]
   \<and> fst (opencog_query_incoming 9
            (run later_calls (snd (opencog_add_link 4 (run three_nodes opencog_atomspace_init)
                                     OPENCOG_INHERITANCE_LINK [1, 2]))) 1) = [4, 6]
   \<and> 4 \<in> set (fst (opencog_query_incoming 9
            (run later_calls (snd (opencog_add_link 4 (run three_nodes opencog_atomspace_init)
                                     OPENCOG_INHERITANCE_LINK [1, 2]))) 2))"
proof -
  have h: "fst (opencog_add_link 4 (run three_nodes opencog_atomspace_init)
                 OPENCOG_INHERITANCE_LINK [1, 2]) = 4"
    by (simp add: three_nodes_def atomspace_eval)
  then have nz: "fst (opencog_add_link 4 (run three_nodes opencog_atomspace_init)
                 OPENCOG_INHERITANCE_LINK [1, 2]) \<noteq> 0" by simp
  have i: "fst (opencog_query_incoming 9
            (run later_calls (snd (opencog_add_link 4 (run three_nodes opencog_atomspace_init)
                                     OPENCOG_INHERITANCE_LINK [1, 2]))) 1) = [4, 6]"
    by (simp add: three_nodes_def later_calls_def atomspace_eval)
  show ?thesis
    using h i add_link_duality [OF nz, of 9 later_calls 9 9] by simp
qed

end
